theory Spec2Isabelle
  imports Complex_Main
begin

section \<open>koolstof: VINDTA logfile parsing, matching and blanks; LI-COR resolution and sampling\<close>

text \<open>
  A shallow embedding of \<^verbatim>\<open>koolstof/vindta/__init__.py\<close> (\<^verbatim>\<open>read_logfile\<close>,
  \<^verbatim>\<open>_logfile2dbs\<close>, \<^verbatim>\<open>logfile2dbs\<close>, \<^verbatim>\<open>_get_blanks\<close>, \<^verbatim>\<open>get_blanks\<close>) and of
  \<^verbatim>\<open>koolstof/infrared/io.py\<close> (\<^verbatim>\<open>get_licor_resolution\<close>, \<^verbatim>\<open>get_licor_samples\<close>).

  Conventions of the embedding:
  \<^item> a text line is a \<open>string\<close>; a character is a code point below 256, so \<^verbatim>\<open>\d\<close> is an ASCII
    digit;
  \<^item> the file is the list of its lines (\<^verbatim>\<open>f.read().splitlines()\<close>);
  \<^item> every Python exception is a value of \<open>error\<close>, and a function that can raise returns
    \<open>error + 'a\<close>;
  \<^item> a Python or NumPy float is a \<open>real\<close>: rounding of binary floating point is not modelled.
    \<^verbatim>\<open>float\<close> of a digit string is exact below \<open>2^53\<close>; NaN is the extra value \<open>NaN\<close> of
    \<open>'a nanable\<close>;
  \<^item> a pandas DataFrame is the list of its rows, each row a record of the columns the code reads
    or writes; the row label (\<^verbatim>\<open>x.name\<close>) is the field \<open>name\<close>.
\<close>

subsection \<open>Errors and values\<close>

datatype error =
    IndexError
  | ValueError
  | TypeError
  | ZeroDivisionError
  | BottleNameNotFound nat
      \<comment> \<open>\<^verbatim>\<open>AssertionError('Logfile line {}: bottle name not found!'.format(i+1))\<close>\<close>
  | NameDateMismatch nat
      \<comment> \<open>\<^verbatim>\<open>AssertionError('More than one (or no) name/date matches ... @ dbs iloc {}'.format(x.name))\<close>\<close>
  | Logfile2dbsNotRun
      \<comment> \<open>\<^verbatim>\<open>AssertionError('You must first run `ks.vindta.logfile2dbs()`.')\<close>\<close>
  | UsefromNotPositive
      \<comment> \<open>\<^verbatim>\<open>AssertionError('`usefrom` must be positive.')\<close>\<close>

datatype 'a nanable = NaN | Num 'a

subsection \<open>Characters, digits and decimal numerals\<close>

definition tab :: char where
  "tab = CHR 0x09"

definition is_digit :: "char \<Rightarrow> bool" where
  "is_digit c = (c \<in> set ''0123456789'')"

text \<open>The characters \<^verbatim>\<open>str.strip()\<close> removes, among the code points below 256.\<close>

definition is_space :: "char \<Rightarrow> bool" where
  "is_space c = (c \<in> {CHR 0x09, CHR 0x0A, CHR 0x0B, CHR 0x0C, CHR 0x0D,
                       CHR 0x1C, CHR 0x1D, CHR 0x1E, CHR 0x1F, CHR 0x20, CHR 0x85, CHR 0xA0})"

definition strip :: "string \<Rightarrow> string" where
  "strip s = rev (dropWhile is_space (rev (dropWhile is_space s)))"

definition digit_val :: "char \<Rightarrow> nat" where
  "digit_val c = of_char c - 48"

definition nat_of_digits :: "string \<Rightarrow> nat" where
  "nat_of_digits s = foldl (\<lambda>a c. 10 * a + digit_val c) 0 s"

text \<open>\<^verbatim>\<open>'{}'.format(n)\<close> for a non-negative integer.\<close>

fun string_of_nat :: "nat \<Rightarrow> string" where
  "string_of_nat n =
     (if n < 10 then [''0123456789'' ! n]
      else string_of_nat (n div 10) @ [''0123456789'' ! (n mod 10)])"

declare string_of_nat.simps [simp del]

text \<open>
  \<^verbatim>\<open>float(s)\<close> as \<^verbatim>\<open>read_logfile\<close> calls it: only on a \<^verbatim>\<open>(\d*)\<close> capture, so \<open>s\<close> holds
  digits only, and \<^verbatim>\<open>float('')\<close> raises \<^verbatim>\<open>ValueError\<close>.
\<close>

definition py_float :: "string \<Rightarrow> error + real" where
  "py_float s = (if s = [] then Inl ValueError else Inr (real (nat_of_digits s)))"

subsection \<open>The regular expressions of \<^verbatim>\<open>read_logfile\<close>\<close>

text \<open>
  \<^verbatim>\<open>re_method = re.compile('(' + '|'.join(methods) + ')\.mth run started ')\<close>, used with
  \<^verbatim>\<open>match\<close> (anchored at the start of the line). The method names are taken as literal text
  (the default \<^verbatim>\<open>'3C standard'\<close> has no regular-expression operator); an empty list of methods
  joins to the empty alternative. The alternatives are tried in order, and the first one
  after which the suffix follows is the captured group.
\<close>

definition method_alternatives :: "string list \<Rightarrow> string list" where
  "method_alternatives methods = (if methods = [] then [[]] else methods)"

definition re_method :: "string list \<Rightarrow> string \<Rightarrow> string option" where
  "re_method methods line =
     List.find (\<lambda>m. take (length m + 17) line = m @ ''.mth run started '')
       (method_alternatives methods)"

definition re_method_match :: "string list \<Rightarrow> string \<Rightarrow> bool" where
  "re_method_match methods line = (re_method methods line \<noteq> None)"

text \<open>
  \<^verbatim>\<open>re_datetime = re.compile(r'started (\d{2})/(\d{2})/(\d{2})  (\d{2}):(\d{2})')\<close>:
  \<open>re_datetime_at\<close> matches it at the start of a string, \<open>re_datetime_findall0\<close> is
  \<^verbatim>\<open>re_datetime.findall(line)[0]\<close>, the leftmost match anywhere in the line, or the
  \<^verbatim>\<open>IndexError\<close> of indexing an empty list.
\<close>

definition two_digits :: "string \<Rightarrow> bool" where
  "two_digits d = (length d = 2 \<and> list_all is_digit d)"

definition re_datetime_at :: "string \<Rightarrow> (string \<times> string \<times> string \<times> string \<times> string) option" where
  "re_datetime_at s =
     (let g1 = take 2 (drop 8 s); g2 = take 2 (drop 11 s); g3 = take 2 (drop 14 s);
          g4 = take 2 (drop 18 s); g5 = take 2 (drop 21 s)
      in if take 8 s = ''started '' \<and> two_digits g1 \<and> take 1 (drop 10 s) = ''/''
            \<and> two_digits g2 \<and> take 1 (drop 13 s) = ''/'' \<and> two_digits g3
            \<and> take 2 (drop 16 s) = ''  '' \<and> two_digits g4 \<and> take 1 (drop 20 s) = '':''
            \<and> two_digits g5
         then Some (g1, g2, g3, g4, g5) else None)"

fun re_datetime_findall0 :: "string \<Rightarrow> error + (string \<times> string \<times> string \<times> string \<times> string)" where
  "re_datetime_findall0 [] = Inl IndexError"
| "re_datetime_findall0 (c # s) =
     (case re_datetime_at (c # s) of
        Some g \<Rightarrow> Inr g
      | None \<Rightarrow> re_datetime_findall0 s)"

text \<open>
  \<^verbatim>\<open>re_bottle = re.compile(r'(bottle)?\t([^\t]*)\t')\<close> with \<^verbatim>\<open>match\<close>; the result is the
  second group, \<^verbatim>\<open>re_bottle.findall(s)[0][1]\<close>. A line that starts with \<^verbatim>\<open>bottle\<close> cannot
  start with a tab, so giving up the optional group never helps.
\<close>

definition tab_field :: "string \<Rightarrow> string option" where
  "tab_field s =
     (case s of
        [] \<Rightarrow> None
      | c # t \<Rightarrow> if c = tab \<and> tab \<in> set t then Some (takeWhile (\<lambda>d. d \<noteq> tab) t) else None)"

definition re_bottle :: "string \<Rightarrow> string option" where
  "re_bottle s = tab_field (if take 6 s = ''bottle'' then drop 6 s else s)"

text \<open>\<^verbatim>\<open>re_crm = re.compile(r'CRM\t([^\t]*)\t')\<close> with \<^verbatim>\<open>match\<close>; the result is the group.\<close>

definition re_crm :: "string \<Rightarrow> string option" where
  "re_crm s = (if take 3 s = ''CRM'' then tab_field (drop 3 s) else None)"

text \<open>
  \<^verbatim>\<open>re_increments = re.compile(r'(\d*)\t(\d*)\t(\d*)\t')\<close> with \<^verbatim>\<open>match\<close>; the result is the
  three groups. A greedy \<^verbatim>\<open>\d*\<close> followed by a tab takes every leading digit.
\<close>

definition digits_tab :: "string \<Rightarrow> (string \<times> string) option" where
  "digits_tab s =
     (case dropWhile is_digit s of
        [] \<Rightarrow> None
      | c # t \<Rightarrow> if c = tab then Some (takeWhile is_digit s, t) else None)"

definition re_increments :: "string \<Rightarrow> (string \<times> string \<times> string) option" where
  "re_increments s =
     (case digits_tab s of
        None \<Rightarrow> None
      | Some (g1, s1) \<Rightarrow>
          (case digits_tab s1 of
             None \<Rightarrow> None
           | Some (g2, s2) \<Rightarrow>
               (case digits_tab s2 of
                  None \<Rightarrow> None
                | Some (g3, s3) \<Rightarrow> Some (g1, g2, g3))))"

subsection \<open>Timestamps\<close>

text \<open>
  \<^verbatim>\<open>np.datetime64('20YY-MM-DDTHH:MM')\<close>: NumPy raises \<^verbatim>\<open>ValueError\<close> when the month, the day
  of the month, the hour or the minute is out of range. Every year \<open>20YY\<close> divisible by 4 is a
  leap year.
\<close>

record datetime64 =
  year :: nat
  month :: nat
  day :: nat
  hour :: nat
  minute :: nat
  second :: nat

definition days_in_month :: "nat \<Rightarrow> nat \<Rightarrow> nat" where
  "days_in_month y m =
     (if m = 2 then (if y mod 4 = 0 \<and> (y mod 100 \<noteq> 0 \<or> y mod 400 = 0) then 29 else 28)
      else if m \<in> {4, 6, 9, 11} then 30 else 31)"

definition np_datetime64 :: "nat \<Rightarrow> nat \<Rightarrow> nat \<Rightarrow> nat \<Rightarrow> nat \<Rightarrow> error + datetime64" where
  "np_datetime64 y m d hh mm =
     (if 1 \<le> m \<and> m \<le> 12 \<and> 1 \<le> d \<and> d \<le> days_in_month y m \<and> hh \<le> 23 \<and> mm \<le> 59
      then Inr \<lparr>year = y, month = m, day = d, hour = hh, minute = mm, second = 0\<rparr>
      else Inl ValueError)"

subsection \<open>\<^verbatim>\<open>read_logfile\<close>\<close>

text \<open>The nested table of a run, \<^verbatim>\<open>jdict\<close>: a dictionary of three arrays.\<close>

record jdict =
  minutes :: "real list"
  counts :: "real list"
  increments :: "real list"

text \<open>
  The two columns that the logfile table and the dbs table share, \<^verbatim>\<open>bottle\<close> and
  \<^verbatim>\<open>analysisdate\<close>, and one row of the DataFrame \<^verbatim>\<open>read_logfile\<close> returns.
\<close>

record sample =
  bottle :: string
  analysisdate :: datetime64

record logfile_row = sample +
  logfileline :: nat
  table :: jdict
  totalcounts :: real
  runtime :: real
  method_name :: string  \<comment> \<open>the column \<^verbatim>\<open>method\<close>\<close>

text \<open>
  The sample name, lines 63 to 71: \<^verbatim>\<open>lbot\<close> starts as the integer 0 and becomes a string in
  one of three branches; \<open>None\<close> is \<^verbatim>\<open>lbot\<close> still being 0, where the assertion fails.
  \<open>i\<close> is the index of the run-start line and \<open>nxt\<close> is \<^verbatim>\<open>logf[i+1]\<close>.
\<close>

definition get_sample_name :: "nat \<Rightarrow> string \<Rightarrow> string option" where
  "get_sample_name i nxt =
     (case re_bottle nxt of
        Some lbot \<Rightarrow> Some lbot
      | None \<Rightarrow>
          (case re_crm nxt of
             Some lbot \<Rightarrow> Some lbot
           | None \<Rightarrow>
               if nxt = ''other'' then Some (''other_'' @ string_of_nat (i + 1)) else None))"

text \<open>
  One pass of the body of the \<^verbatim>\<open>while\<close> loop on a stripped line: \<open>None\<close> when the line does not
  match \<^verbatim>\<open>re_increments\<close>, else the three floats, or the \<^verbatim>\<open>ValueError\<close> of \<^verbatim>\<open>float('')\<close>.
\<close>

definition increment_row :: "string \<Rightarrow> (error + real \<times> real \<times> real) option" where
  "increment_row s =
     (case re_increments s of
        None \<Rightarrow> None
      | Some (g1, g2, g3) \<Rightarrow>
          Some (case py_float g1 of
                  Inl e \<Rightarrow> Inl e
                | Inr m \<Rightarrow>
                    (case py_float g2 of
                       Inl e \<Rightarrow> Inl e
                     | Inr c \<Rightarrow>
                         (case py_float g3 of
                            Inl e \<Rightarrow> Inl e
                          | Inr n \<Rightarrow> Inr (m, c, n)))))"

text \<open>
  The \<^verbatim>\<open>while\<close> loop, lines 76 to 81. \<^verbatim>\<open>logf[i+j]\<close> raises \<^verbatim>\<open>IndexError\<close> past the last line;
  the loop returns the table and the final \<open>j\<close>.
\<close>

function read_increments :: "string list \<Rightarrow> nat \<Rightarrow> nat \<Rightarrow> jdict \<Rightarrow> error + (jdict \<times> nat)" where
  "read_increments logf i j jd =
     (if length logf \<le> i + j then Inl IndexError
      else (case increment_row (strip (logf ! (i + j))) of
              None \<Rightarrow> Inr (jd, j)
            | Some (Inl e) \<Rightarrow> Inl e
            | Some (Inr (m, c, n)) \<Rightarrow>
                read_increments logf i (Suc j)
                  \<lparr>minutes = minutes jd @ [m], counts = counts jd @ [c],
                   increments = increments jd @ [n]\<rparr>))"
  by pat_completeness auto
termination
  by (relation "measure (\<lambda>(logf, i, j, jd). length logf - (i + j))") auto

declare read_increments.simps [simp del]

text \<open>
  The body of the \<^verbatim>\<open>for\<close> loop for a line that matches \<^verbatim>\<open>re_method\<close>, lines 55 to 85;
  \<open>run_timestamp\<close> is lines 58 to 60, where the two-digit year \<open>YY\<close> becomes \<open>20YY\<close>.
  \<^verbatim>\<open>re_method.findall(line)[0]\<close> exists, since the line matches.
\<close>

definition run_timestamp :: "string \<Rightarrow> error + datetime64" where
  "run_timestamp line =
     (case re_datetime_findall0 line of
        Inl e \<Rightarrow> Inl e
      | Inr (g1, g2, g3, g4, g5) \<Rightarrow>
          np_datetime64 (2000 + nat_of_digits g3) (nat_of_digits g1) (nat_of_digits g2)
            (nat_of_digits g4) (nat_of_digits g5))"

definition parse_run :: "string list \<Rightarrow> string list \<Rightarrow> nat \<Rightarrow> string \<Rightarrow> error + logfile_row" where
  "parse_run methods logf i line =
     (case run_timestamp line of
        Inl e \<Rightarrow> Inl e
      | Inr ldt \<Rightarrow>
          if length logf \<le> i + 1 then Inl IndexError
          else (case get_sample_name i (logf ! (i + 1)) of
                  None \<Rightarrow> Inl (BottleNameNotFound (i + 1))
                | Some lbot \<Rightarrow>
                    (case read_increments logf i 4
                            \<lparr>minutes = [0], counts = [0], increments = [0]\<rparr> of
                       Inl e \<Rightarrow> Inl e
                     | Inr (jd, j) \<Rightarrow>
                         Inr \<lparr>bottle = lbot, analysisdate = ldt, logfileline = i,
                              table = jd, totalcounts = last (counts jd),
                              runtime = real j - 4,
                              method_name = the (re_method methods line)\<rparr>)))"

text \<open>
  The \<^verbatim>\<open>for i, line in enumerate(logf)\<close> loop: \<open>logdf\<close> is the rows appended so far. Every line
  is visited, also the lines an earlier run has read as its increments. The result is the
  list of rows handed to \<^verbatim>\<open>pd.DataFrame\<close>; what pandas makes of the empty columns of a file
  without a run-start line is not modelled, and no property below is about such a file.
\<close>

fun scan_lines :: "string list \<Rightarrow> string list \<Rightarrow> (nat \<times> string) list \<Rightarrow> logfile_row list
    \<Rightarrow> error + logfile_row list" where
  "scan_lines methods logf [] logdf = Inr logdf"
| "scan_lines methods logf ((i, line) # rest) logdf =
     (if re_method_match methods line
      then (case parse_run methods logf i line of
              Inl e \<Rightarrow> Inl e
            | Inr r \<Rightarrow> scan_lines methods logf rest (logdf @ [r]))
      else scan_lines methods logf rest logdf)"

definition read_logfile :: "string list \<Rightarrow> string list \<Rightarrow> error + logfile_row list" where
  "read_logfile methods logf = scan_lines methods logf (enumerate 0 logf) []"

subsection \<open>\<^verbatim>\<open>_logfile2dbs\<close> and \<^verbatim>\<open>logfile2dbs\<close>\<close>

text \<open>
  A cell of the column \<^verbatim>\<open>logfile_iloc\<close>. \<^verbatim>\<open>_logfile2dbs\<close> returns an integer position or
  \<^verbatim>\<open>np.nan\<close> (\<open>nat nanable\<close>); pandas stores the column as integers when every row has a
  position, and as floats as soon as one row holds NaN.
\<close>

datatype iloc = Int64 nat | Float64 "real nanable"

text \<open>
  One row of the dbs table: the shared columns, the row label \<^verbatim>\<open>x.name\<close>, and the two columns
  that \<^verbatim>\<open>logfile2dbs\<close> and \<^verbatim>\<open>get_blanks\<close> add (\<open>None\<close> while the column is absent).
\<close>

record dbs_row = sample +
  name :: nat
  logfile_iloc :: "iloc option"
  blank_here :: "real nanable option"

text \<open>
  \<^verbatim>\<open>_logfile2dbs(x, logfile)\<close>: \<open>xix\<close> is \<^verbatim>\<open>np.where(...)[0]\<close>, the positions of the logfile rows
  with the bottle and the analysis date of \<open>x\<close>.
\<close>

definition logfile2dbs_row :: "dbs_row \<Rightarrow> logfile_row list \<Rightarrow> error + nat nanable" where
  "logfile2dbs_row x logfile =
     (if bottle x \<in> set (map bottle logfile)
      then (let xix = filter (\<lambda>k. bottle x = bottle (logfile ! k)
                                  \<and> analysisdate x = analysisdate (logfile ! k))
                        [0..<length logfile]
            in if length xix = 1 then Inr (Num (xix ! 0))
               else Inl (NameDateMismatch (name x)))
      else Inr NaN)"

text \<open>
  \<^verbatim>\<open>df.apply(lambda x: func(x, *args), axis=1)\<close> of \<^verbatim>\<open>addfunccols\<close>: the rows in order, and the
  first exception ends the call.
\<close>

fun apply_rows :: "('a \<Rightarrow> error + 'b) \<Rightarrow> 'a list \<Rightarrow> error + 'b list" where
  "apply_rows f [] = Inr []"
| "apply_rows f (x # xs) =
     (case f x of
        Inl e \<Rightarrow> Inl e
      | Inr y \<Rightarrow> (case apply_rows f xs of Inl e \<Rightarrow> Inl e | Inr ys \<Rightarrow> Inr (y # ys)))"

definition to_float64 :: "nat nanable \<Rightarrow> iloc" where
  "to_float64 v = (case v of NaN \<Rightarrow> Float64 NaN | Num k \<Rightarrow> Float64 (Num (real k)))"

definition column_cells :: "nat nanable list \<Rightarrow> iloc list" where
  "column_cells vs = (if NaN \<in> set vs then map to_float64 vs
                      else map (\<lambda>v. case v of Num k \<Rightarrow> Int64 k | NaN \<Rightarrow> Float64 NaN) vs)"

definition logfile2dbs :: "dbs_row list \<Rightarrow> logfile_row list \<Rightarrow> error + dbs_row list" where
  "logfile2dbs dbs logfile =
     (case apply_rows (\<lambda>x. logfile2dbs_row x logfile) dbs of
        Inl e \<Rightarrow> Inl e
      | Inr vs \<Rightarrow> Inr (map2 (\<lambda>x c. x\<lparr>logfile_iloc := Some c\<rparr>) dbs (column_cells vs)))"

subsection \<open>\<^verbatim>\<open>_get_blanks\<close> and \<^verbatim>\<open>get_blanks\<close>\<close>

text \<open>
  \<^verbatim>\<open>arr[L]\<close> for a boolean array \<open>L\<close>: NumPy raises \<^verbatim>\<open>IndexError\<close> when the lengths differ.
  \<^verbatim>\<open>np.mean\<close> of an empty array is NaN (with a warning, which is not an exception).
\<close>

definition mask_index :: "'a list \<Rightarrow> bool list \<Rightarrow> error + 'a list" where
  "mask_index arr L =
     (if length L \<noteq> length arr then Inl IndexError
      else Inr (map fst (filter snd (zip arr L))))"

definition np_mean :: "real list \<Rightarrow> real nanable" where
  "np_mean xs = (if xs = [] then NaN else Num (sum_list xs / real (length xs)))"

text \<open>
  \<^verbatim>\<open>_get_blanks(x, logfile, usefrom)\<close>. \<^verbatim>\<open>logfile.iloc[key]\<close> raises \<^verbatim>\<open>TypeError\<close> for a key that
  is not an integer (a float, NaN included) and \<^verbatim>\<open>IndexError\<close> for a position out of bounds.
\<close>

definition get_blanks_row :: "dbs_row \<Rightarrow> logfile_row list \<Rightarrow> real \<Rightarrow> error + real nanable" where
  "get_blanks_row x logfile usefrom =
     (case logfile_iloc x of
        None \<Rightarrow> Inl Logfile2dbsNotRun
      | Some key \<Rightarrow>
          if \<not> 0 < usefrom then Inl UsefromNotPositive
          else (case key of
                  Float64 v \<Rightarrow> Inl TypeError
                | Int64 k \<Rightarrow>
                    if length logfile \<le> k then Inl IndexError
                    else (let lft = table (logfile ! k);
                              L = map (\<lambda>m. usefrom \<le> m) (minutes lft)
                          in case mask_index (increments lft) L of
                               Inl e \<Rightarrow> Inl e
                             | Inr sel \<Rightarrow> Inr (np_mean sel))))"

definition get_blanks :: "dbs_row list \<Rightarrow> logfile_row list \<Rightarrow> real \<Rightarrow> error + dbs_row list" where
  "get_blanks dbs logfile usefrom =
     (case apply_rows (\<lambda>x. get_blanks_row x logfile usefrom) dbs of
        Inl e \<Rightarrow> Inl e
      | Inr bs \<Rightarrow> Inr (map2 (\<lambda>x b. x\<lparr>blank_here := Some b\<rparr>) dbs bs))"

text \<open>
  The blank as the specification words it, to compare \<open>get_blanks_row\<close> with: the increment
  table rows, by position, whose \<^verbatim>\<open>minutes\<close> is at least the cutoff, and the arithmetic mean of
  their \<^verbatim>\<open>increments\<close>; the mean of no rows is NaN.
\<close>

definition rows_from_cutoff :: "real \<Rightarrow> jdict \<Rightarrow> nat list" where
  "rows_from_cutoff cutoff t = filter (\<lambda>p. cutoff \<le> minutes t ! p) [0..<length (minutes t)]"

definition mean_from_cutoff :: "real \<Rightarrow> jdict \<Rightarrow> real nanable" where
  "mean_from_cutoff cutoff t =
     (let sel = map (\<lambda>p. increments t ! p) (rows_from_cutoff cutoff t)
      in if sel = [] then NaN else Num (sum_list sel / real (length sel)))"

subsection \<open>\<^verbatim>\<open>get_licor_resolution\<close>\<close>

text \<open>
  The function reads and rewrites the column \<^verbatim>\<open>datenum\<close> only (\<^verbatim>\<open>datetime\<close> is recomputed from
  it by matplotlib), so the table is that column, a list of reals. The definitions below
  are the local variables of the source, in its order.

  \<^verbatim>\<open>Series.unique()\<close> keeps the first occurrence of every value, in order of appearance.
\<close>

definition unique :: "'a list \<Rightarrow> 'a list" where
  "unique xs = rev (remdups (rev xs))"

definition ldu :: "real list \<Rightarrow> real list" where
  \<comment> \<open>\<^verbatim>\<open>licor.datenum.unique()[1:-1]\<close>\<close>
  "ldu datenum = butlast (tl (unique datenum))"

definition lda :: "real list \<Rightarrow> real list" where
  \<comment> \<open>\<^verbatim>\<open>licor[np.isin(licor.datenum, ldu)].datenum\<close>\<close>
  "lda datenum = filter (\<lambda>t. t \<in> set (ldu datenum)) datenum"

text \<open>
  \<^verbatim>\<open>int(len(lda) / len(ldu))\<close>: the quotient of two lengths, truncated; the division raises
  \<^verbatim>\<open>ZeroDivisionError\<close> when \<open>ldu\<close> is empty.
\<close>

definition resolution :: "real list \<Rightarrow> nat" where
  "resolution datenum = length (lda datenum) div length (ldu datenum)"

text \<open>
  \<^verbatim>\<open>np.where(xs == v)[0][0]\<close> and \<^verbatim>\<open>np.where(xs == v)[0][-1]\<close>: the first and the last position
  of \<open>v\<close>, or \<^verbatim>\<open>IndexError\<close> when \<open>v\<close> does not occur.
\<close>

definition first_where :: "'a list \<Rightarrow> 'a \<Rightarrow> error + nat" where
  "first_where xs v =
     (if v \<in> set xs then Inr (length (takeWhile (\<lambda>t. t \<noteq> v) xs)) else Inl IndexError)"

definition last_where :: "'a list \<Rightarrow> 'a \<Rightarrow> error + nat" where
  "last_where xs v =
     (if v \<in> set xs then Inr (length xs - 1 - length (takeWhile (\<lambda>t. t \<noteq> v) (rev xs)))
      else Inl IndexError)"

text \<open>\<^verbatim>\<open>np.linspace(a, b, n)\<close>, and the slice \<^verbatim>\<open>xs[-n:]\<close>, which is all of \<open>xs\<close> for \<open>n = 0\<close>.\<close>

definition linspace :: "real \<Rightarrow> real \<Rightarrow> nat \<Rightarrow> real list" where
  "linspace a b n =
     (if n = 1 then [a] else map (\<lambda>k. a + real k * ((b - a) / real (n - 1))) [0..<n])"

definition slice_from_end :: "'a list \<Rightarrow> nat \<Rightarrow> 'a list" where
  "slice_from_end xs n = (if n = 0 then xs else drop (length xs - n) xs)"

text \<open>
  The concatenated \<^verbatim>\<open>second_fractions\<close> of line 75, in seconds. Adding an array of another
  length to the column raises \<^verbatim>\<open>ValueError\<close>.
\<close>

definition second_fractions :: "real list \<Rightarrow> error + real list" where
  "second_fractions datenum =
     (if length (ldu datenum) = 0 then Inl ZeroDivisionError
      else if resolution datenum = 0 then Inl ZeroDivisionError
      else (let timestep = 1 / real (resolution datenum)
            in case first_where datenum (ldu datenum ! 0) of
                 Inl e \<Rightarrow> Inl e
               | Inr start_iloc \<Rightarrow>
                   (let fractions = linspace 0 (1 - timestep) (resolution datenum);
                        second_fractions_start = slice_from_end fractions start_iloc;
                        second_fractions_middle =
                          concat (replicate (length (ldu datenum)) fractions)
                    in case last_where datenum (last (ldu datenum)) of
                         Inl e \<Rightarrow> Inl e
                       | Inr l \<Rightarrow>
                           (let tail_iloc = l + 1;
                                tail_length = length datenum - tail_iloc;
                                second_fractions_end = take tail_length fractions
                            in Inr (second_fractions_start @ second_fractions_middle
                                      @ second_fractions_end)))))"

definition get_licor_resolution :: "real list \<Rightarrow> error + real list" where
  "get_licor_resolution datenum =
     (case second_fractions datenum of
        Inl e \<Rightarrow> Inl e
      | Inr fs \<Rightarrow>
          if length fs \<noteq> length datenum then Inl ValueError
          else Inr (map2 (\<lambda>t f. t + f / (60 * 60 * 24)) datenum fs))"

subsection \<open>\<^verbatim>\<open>get_licor_samples\<close>\<close>

text \<open>
  A row of the LI-COR table: its \<^verbatim>\<open>datenum\<close> and the column \<^verbatim>\<open>dbs_ix\<close> the function adds. The
  argument \<open>dbs\<close> is the column \<^verbatim>\<open>dbs.datenum\<close>; the dbs table carries the default index of
  \<^verbatim>\<open>read_dbs\<close>, so that \<^verbatim>\<open>dbs.index\<close> is the positions \<open>0, 1, ...\<close> and \<^verbatim>\<open>dbs.loc[dbs_ix]\<close> is
  the row at position \<open>dbs_ix\<close>.
\<close>

record licor_row =
  datenum :: real
  dbs_ix :: "nat nanable"

definition tag_rows :: "real list \<Rightarrow> nat \<Rightarrow> licor_row list \<Rightarrow> licor_row list" where
  \<comment> \<open>\<^verbatim>\<open>licor.loc[licor.datenum >= dbs.loc[dbs_ix].datenum, "dbs_ix"] = dbs_ix\<close>\<close>
  "tag_rows dbs ix licor =
     map (\<lambda>r. if dbs ! ix \<le> datenum r then r\<lparr>dbs_ix := Num ix\<rparr> else r) licor"

definition get_licor_samples :: "licor_row list \<Rightarrow> real list \<Rightarrow> licor_row list" where
  "get_licor_samples licor dbs =
     filter (\<lambda>r. dbs_ix r \<noteq> NaN)
       (fold (tag_rows dbs) [0..<length dbs] (map (\<lambda>r. r\<lparr>dbs_ix := NaN\<rparr>) licor))"

subsection \<open>Example inputs\<close>

definition run_start :: string where
  "run_start = ''3C standard.mth run started 01/02/19  10:30''"

definition increment_line :: "string \<Rightarrow> string \<Rightarrow> string \<Rightarrow> string \<Rightarrow> string" where
  "increment_line a b c d = a @ [tab] @ b @ [tab] @ c @ [tab] @ d"

definition std1_logfile :: "string list" where
  "std1_logfile =
     [run_start, ''bottle'' @ [tab] @ ''STD1'' @ [tab], ''cell'', ''blank'',
      increment_line ''1'' ''2'' ''3'' ''4'', ''end of run'']"

definition std1_row :: logfile_row where
  "std1_row =
     \<lparr>bottle = ''STD1'',
      analysisdate = \<lparr>year = 2019, month = 1, day = 2, hour = 10, minute = 30, second = 0\<rparr>,
      logfileline = 0,
      table = \<lparr>minutes = [0, 1], counts = [0, 2], increments = [0, 3]\<rparr>,
      totalcounts = 2, runtime = 1, method_name = ''3C standard''\<rparr>"

definition example_timestamp :: datetime64 where
  "example_timestamp = \<lparr>year = 2019, month = 1, day = 2, hour = 10, minute = 30, second = 0\<rparr>"

definition other_logfile :: "string list" where
  "other_logfile =
     replicate 41 [] @ [run_start, ''other'', ''cell'', ''blank'', ''end of run'']"

definition other_row :: logfile_row where
  "other_row =
     \<lparr>bottle = ''other_42'',
      analysisdate = \<lparr>year = 2019, month = 1, day = 2, hour = 10, minute = 30, second = 0\<rparr>,
      logfileline = 41,
      table = \<lparr>minutes = [0], counts = [0], increments = [0]\<rparr>,
      totalcounts = 0, runtime = 0, method_name = ''3C standard''\<rparr>"

definition crm_logfile :: "string list" where
  "crm_logfile =
     [''session of 01/02/19'', run_start, ''CRM'' @ [tab] @ ''BATCH9'' @ [tab], ''cell'', ''blank'',
      increment_line ''1'' ''2'' ''3'' ''4'', increment_line ''2'' ''5'' ''3'' ''4'', ''end of run'']"

definition crm_row :: logfile_row where
  "crm_row =
     \<lparr>bottle = ''BATCH9'',
      analysisdate = \<lparr>year = 2019, month = 1, day = 2, hour = 10, minute = 30, second = 0\<rparr>,
      logfileline = 1,
      table = \<lparr>minutes = [0, 1, 2], counts = [0, 2, 5], increments = [0, 3, 3]\<rparr>,
      totalcounts = 5, runtime = 2, method_name = ''3C standard''\<rparr>"

definition empty_name_logfile :: "string list" where
  "empty_name_logfile =
     [run_start, ''bottle'' @ [tab, tab], ''cell'', ''blank'', ''end of run'']"

definition empty_name_row :: logfile_row where
  "empty_name_row =
     \<lparr>bottle = [],
      analysisdate = \<lparr>year = 2019, month = 1, day = 2, hour = 10, minute = 30, second = 0\<rparr>,
      logfileline = 0,
      table = \<lparr>minutes = [0], counts = [0], increments = [0]\<rparr>,
      totalcounts = 0, runtime = 0, method_name = ''3C standard''\<rparr>"

definition no_name_logfile :: "string list" where
  "no_name_logfile = std1_logfile @ [run_start, ''nonsense'', ''cell'', ''blank'', ''end of run'']"

definition nameless_then_start_logfile :: "string list" where
  "nameless_then_start_logfile = [run_start, ''nonsense'', run_start]"

definition empty_field_logfile :: "string list" where
  "empty_field_logfile =
     [run_start, ''bottle'' @ [tab] @ ''STD1'' @ [tab], ''cell'', ''blank'',
      increment_line ''1'' [] ''3'' ''4'']"

definition start_last_logfile :: "string list" where
  "start_last_logfile = std1_logfile @ [run_start]"

definition increments_last_logfile :: "string list" where
  "increments_last_logfile =
     std1_logfile @ [run_start, ''bottle'' @ [tab] @ ''STD2'' @ [tab], ''cell'', ''blank'',
                     increment_line ''1'' ''2'' ''3'' ''4'', increment_line ''2'' ''4'' ''2'' ''4'']"

definition blank_table :: jdict where
  "blank_table = \<lparr>minutes = [0, 2, 4, 6, 8, 10], counts = [0, 3, 7, 12, 18, 25],
                   increments = [0, 1, 2, 3, 4, 5]\<rparr>"

definition blank_logfile :: "logfile_row list" where
  "blank_logfile = [std1_row, std1_row\<lparr>bottle := ''STD2'', table := blank_table\<rparr>]"

definition std2_dbs_row :: dbs_row where
  "std2_dbs_row =
     \<lparr>bottle = ''STD2'', analysisdate = example_timestamp, name = 0, logfile_iloc = None,
      blank_here = None\<rparr>"

definition absent_dbs_row :: dbs_row where
  "absent_dbs_row =
     \<lparr>bottle = ''STD3'', analysisdate = example_timestamp, name = 1, logfile_iloc = None,
      blank_here = None\<rparr>"

definition licor_example :: "licor_row list" where
  "licor_example = map (\<lambda>t. \<lparr>datenum = t, dbs_ix = NaN\<rparr>) [1, 2, 3, 4, 5]"

definition dbs_example :: "real list" where
  "dbs_example = [2, 4]"

definition licor_datenum_example :: "real list" where
  "licor_datenum_example = [0, 1, 1, 1, 1, 1, 2, 2, 2, 2, 2, 3]"

definition licor_fractions_example :: "real list" where
  "licor_fractions_example =
     [4 / 5] @ [0, 1 / 5, 2 / 5, 3 / 5, 4 / 5] @ [0, 1 / 5, 2 / 5, 3 / 5, 4 / 5] @ [0]"

definition licor_corrected_example :: "real list" where
  "licor_corrected_example =
     map2 (\<lambda>t f. t + f / (60 * 60 * 24)) licor_datenum_example licor_fractions_example"

definition doubled_logfile :: "logfile_row list" where
  "doubled_logfile = blank_logfile @ [std1_row]"

definition default_index_dbs :: "dbs_row list" where
  "default_index_dbs =
     [std2_dbs_row, absent_dbs_row, std2_dbs_row\<lparr>bottle := ''STD1'', name := 2\<rparr>]"

definition relabelled_dbs :: "dbs_row list" where
  "relabelled_dbs = [absent_dbs_row\<lparr>name := 3\<rparr>, std2_dbs_row\<lparr>bottle := ''STD1'', name := 7\<rparr>]"

definition mixed_dbs :: "dbs_row list" where
  "mixed_dbs = [std2_dbs_row, absent_dbs_row]"

definition tied_dbs_example :: "real list" where
  "tied_dbs_example = [2, 2]"

section \<open>Properties of \<^verbatim>\<open>read_logfile\<close>\<close>

subsection \<open>The increments loop\<close>

lemma increment_row_None: "increment_row s = None \<longleftrightarrow> re_increments s = None"
  by (auto simp: increment_row_def split: option.splits)

text \<open>
  When the loop returns, it has stopped on a line inside the file that does not match, every
  line before it matched with three non-empty fields, and one row was appended per line.
\<close>

lemma read_increments_Inr:
  "read_increments logf i j jd = Inr (jd', j') \<Longrightarrow>
     j \<le> j' \<and> i + j' < length logf \<and> re_increments (strip (logf ! (i + j'))) = None
     \<and> (\<forall>k. j \<le> k \<and> k < j' \<longrightarrow> (\<exists>row. increment_row (strip (logf ! (i + k))) = Some (Inr row)))
     \<and> (\<exists>ms cs ns. minutes jd' = minutes jd @ ms \<and> counts jd' = counts jd @ cs
            \<and> increments jd' = increments jd @ ns
            \<and> length ms = j' - j \<and> length cs = j' - j \<and> length ns = j' - j)"
proof (induction logf i j jd rule: read_increments.induct)
  case (1 logf i j jd)
  from "1.prems" have inb: "i + j < length logf"
    by (subst (asm) read_increments.simps) (auto split: if_splits)
  show ?case
  proof (cases "increment_row (strip (logf ! (i + j)))")
    case None
    with "1.prems" inb have "jd' = jd" "j' = j"
      by (subst (asm) read_increments.simps, simp)+
    with None inb show ?thesis by (auto simp: increment_row_None)
  next
    case (Some a)
    show ?thesis
    proof (cases a)
      case (Inl e)
      with Some "1.prems" inb show ?thesis
        by (subst (asm) read_increments.simps) simp
    next
      case (Inr row)
      obtain m c n where row: "row = (m, c, n)" by (cases row)
      let ?jd = "\<lparr>minutes = minutes jd @ [m], counts = counts jd @ [c],
                  increments = increments jd @ [n]\<rparr>"
      from "1.prems" Some Inr row inb
      have rec: "read_increments logf i (Suc j) ?jd = Inr (jd', j')"
        by (subst (asm) read_increments.simps) simp
      from inb have nle: "\<not> length logf \<le> i + j" by simp
      from "1.IH"[OF nle Some Inr _ _ rec] row
      have IH: "Suc j \<le> j'" "i + j' < length logf"
        "re_increments (strip (logf ! (i + j'))) = None"
        "\<forall>k. Suc j \<le> k \<and> k < j' \<longrightarrow>
           (\<exists>row. increment_row (strip (logf ! (i + k))) = Some (Inr row))"
        "\<exists>ms cs ns. minutes jd' = minutes ?jd @ ms \<and> counts jd' = counts ?jd @ cs
            \<and> increments jd' = increments ?jd @ ns
            \<and> length ms = j' - Suc j \<and> length cs = j' - Suc j \<and> length ns = j' - Suc j"
        by simp_all
      from IH(5) obtain ms cs ns where t: "minutes jd' = minutes ?jd @ ms"
        "counts jd' = counts ?jd @ cs" "increments jd' = increments ?jd @ ns"
        "length ms = j' - Suc j" "length cs = j' - Suc j" "length ns = j' - Suc j"
        by blast
      have all: "\<forall>k. j \<le> k \<and> k < j' \<longrightarrow>
          (\<exists>row. increment_row (strip (logf ! (i + k))) = Some (Inr row))"
      proof (intro allI impI)
        fix k assume k: "j \<le> k \<and> k < j'"
        show "\<exists>row. increment_row (strip (logf ! (i + k))) = Some (Inr row)"
        proof (cases "k = j")
          case True
          with Some Inr show ?thesis by blast
        next
          case False
          with k have "Suc j \<le> k \<and> k < j'" by simp
          with IH(4) show ?thesis by blast
        qed
      qed
      have ex: "\<exists>ms cs ns. minutes jd' = minutes jd @ ms \<and> counts jd' = counts jd @ cs
            \<and> increments jd' = increments jd @ ns
            \<and> length ms = j' - j \<and> length cs = j' - j \<and> length ns = j' - j"
        using t IH(1)
        by (intro exI[of _ "m # ms"] exI[of _ "c # cs"] exI[of _ "n # ns"]) auto
      from IH(1,2,3) all ex show ?thesis by simp
    qed
  qed
qed

subsection \<open>The scan over the lines\<close>

lemma scan_lines_Inr:
  "scan_lines ms logf ps acc = Inr out \<Longrightarrow>
     \<exists>rs. out = acc @ rs
       \<and> list_all2 (\<lambda>p r. parse_run ms logf (fst p) (snd p) = Inr r)
            (filter (\<lambda>p. re_method_match ms (snd p)) ps) rs"
proof (induction ps arbitrary: acc)
  case Nil
  then show ?case by simp
next
  case (Cons p ps)
  obtain i line where p: "p = (i, line)" by (cases p)
  show ?case
  proof (cases "re_method_match ms line")
    case False
    with Cons.prems p have "scan_lines ms logf ps acc = Inr out" by simp
    from Cons.IH[OF this] False p show ?thesis by simp
  next
    case True
    with Cons.prems p obtain r where r: "parse_run ms logf i line = Inr r"
      and rest: "scan_lines ms logf ps (acc @ [r]) = Inr out"
      by (auto split: sum.splits)
    from Cons.IH[OF rest] obtain rs where "out = (acc @ [r]) @ rs"
      "list_all2 (\<lambda>p r. parse_run ms logf (fst p) (snd p) = Inr r)
            (filter (\<lambda>p. re_method_match ms (snd p)) ps) rs" by blast
    with True p r show ?thesis
      by (intro exI[of _ "r # rs"]) simp
  qed
qed

lemma enumerate_nth: "enumerate 0 xs = map (\<lambda>i. (i, xs ! i)) [0..<length xs]"
  by (rule nth_equalityI) (simp_all add: nth_enumerate_eq)

lemma filter_enumerate:
  "filter (\<lambda>p. P (snd p)) (enumerate 0 xs)
     = map (\<lambda>i. (i, xs ! i)) (filter (\<lambda>i. P (xs ! i)) [0..<length xs])"
  by (simp add: enumerate_nth filter_map comp_def)

text \<open>The rows returned are the parsed runs of the run-start lines, in file order.\<close>

lemma read_logfile_rows:
  assumes "read_logfile ms logf = Inr rows"
  shows "list_all2 (\<lambda>i r. parse_run ms logf i (logf ! i) = Inr r)
           (filter (\<lambda>i. re_method_match ms (logf ! i)) [0..<length logf]) rows"
proof -
  from assms scan_lines_Inr[of ms logf "enumerate 0 logf" "[]" rows]
  have "list_all2 (\<lambda>p r. parse_run ms logf (fst p) (snd p) = Inr r)
            (filter (\<lambda>p. re_method_match ms (snd p)) (enumerate 0 logf)) rows"
    by (simp add: read_logfile_def)
  then show ?thesis
    by (simp add: filter_enumerate list_all2_map1)
qed

lemma read_logfile_row:
  assumes "read_logfile ms logf = Inr rows" and "r \<in> set rows"
  shows "\<exists>i<length logf. re_method_match ms (logf ! i) \<and> parse_run ms logf i (logf ! i) = Inr r"
proof -
  from assms(2) obtain n where n: "n < length rows" "rows ! n = r"
    by (auto simp: in_set_conv_nth)
  let ?is = "filter (\<lambda>i. re_method_match ms (logf ! i)) [0..<length logf]"
  from read_logfile_rows[OF assms(1)] have l: "length ?is = length rows"
    and a: "\<And>n. n < length rows \<Longrightarrow> parse_run ms logf (?is ! n) (logf ! (?is ! n)) = Inr (rows ! n)"
    by (auto simp: list_all2_conv_all_nth)
  from n l have "?is ! n \<in> set ?is" by (metis nth_mem)
  then have "?is ! n < length logf" "re_method_match ms (logf ! (?is ! n))" by auto
  with a[OF n(1)] n(2) show ?thesis by blast
qed

lemma read_logfile_start:
  assumes "read_logfile ms logf = Inr rows" and "i < length logf"
    and "re_method_match ms (logf ! i)"
  shows "\<exists>r\<in>set rows. parse_run ms logf i (logf ! i) = Inr r"
proof -
  let ?is = "filter (\<lambda>i. re_method_match ms (logf ! i)) [0..<length logf]"
  from assms(2,3) have "i \<in> set ?is" by simp
  then obtain n where n: "n < length ?is" "?is ! n = i" by (meson in_set_conv_nth)
  from read_logfile_rows[OF assms(1)] have l: "length ?is = length rows"
    and a: "\<And>n. n < length rows \<Longrightarrow> parse_run ms logf (?is ! n) (logf ! (?is ! n)) = Inr (rows ! n)"
    by (auto simp: list_all2_conv_all_nth)
  from n l a[of n] have "parse_run ms logf i (logf ! i) = Inr (rows ! n)" "rows ! n \<in> set rows"
    by auto
  then show ?thesis by blast
qed

subsection \<open>One run\<close>

lemma parse_run_Inr:
  assumes "parse_run ms logf i line = Inr r"
  shows "logfileline r = i \<and> i + 1 < length logf
     \<and> get_sample_name i (logf ! (i + 1)) = Some (bottle r)
     \<and> (\<exists>j. read_increments logf i 4 \<lparr>minutes = [0], counts = [0], increments = [0]\<rparr>
               = Inr (table r, j)
            \<and> runtime r = real j - 4)
     \<and> totalcounts r = last (counts (table r))"
  using assms
  by (auto simp: parse_run_def split: sum.splits prod.splits if_splits option.splits)

lemma parse_run_table:
  assumes "parse_run ms logf i line = Inr r"
  shows "\<exists>ms cs ns. table r = \<lparr>minutes = 0 # ms, counts = 0 # cs, increments = 0 # ns\<rparr>
           \<and> length ms = length cs \<and> length cs = length ns"
proof -
  from parse_run_Inr[OF assms] obtain j where
    "read_increments logf i 4 \<lparr>minutes = [0], counts = [0], increments = [0]\<rparr> = Inr (table r, j)"
    by blast
  from read_increments_Inr[OF this] obtain ms cs ns where
    "minutes (table r) = [0] @ ms" "counts (table r) = [0] @ cs" "increments (table r) = [0] @ ns"
    "length ms = j - 4" "length cs = j - 4" "length ns = j - 4"
    by auto
  then show ?thesis
    by (intro exI[of _ ms] exI[of _ cs] exI[of _ ns]) (cases "table r", simp)
qed

lemma parse_run_no_increments:
  assumes "parse_run ms logf i line = Inr r"
    and "re_increments (strip (logf ! (i + 4))) = None"
  shows "table r = \<lparr>minutes = [0], counts = [0], increments = [0]\<rparr>"
proof -
  from parse_run_Inr[OF assms(1)] obtain j where
    j: "read_increments logf i 4 \<lparr>minutes = [0], counts = [0], increments = [0]\<rparr> = Inr (table r, j)"
    by blast
  from read_increments_Inr[OF j] have "i + 4 < length logf" by simp
  with j assms(2) show ?thesis
    by (subst (asm) read_increments.simps) (simp add: increment_row_None[symmetric])
qed

subsection \<open>Runs that fail\<close>

lemma scan_lines_first_error:
  assumes "\<forall>p\<in>set ps. re_method_match ms (snd p) \<longrightarrow> (\<exists>r. parse_run ms logf (fst p) (snd p) = Inr r)"
    and "re_method_match ms line" and "parse_run ms logf i line = Inl e"
  shows "scan_lines ms logf (ps @ (i, line) # qs) acc = Inl e"
  using assms(1)
proof (induction ps arbitrary: acc)
  case Nil
  from assms(2,3) show ?case by simp
next
  case (Cons p ps)
  obtain k l where p: "p = (k, l)" by (cases p)
  show ?case
  proof (cases "re_method_match ms l")
    case False
    with Cons p show ?thesis by simp
  next
    case True
    with Cons.prems p obtain r where "parse_run ms logf k l = Inr r" by auto
    with True Cons p show ?thesis by simp
  qed
qed

lemma read_logfile_first_error:
  assumes "i < length logf" and "re_method_match ms (logf ! i)"
    and "\<forall>i'<i. re_method_match ms (logf ! i') \<longrightarrow> (\<exists>r. parse_run ms logf i' (logf ! i') = Inr r)"
    and "parse_run ms logf i (logf ! i) = Inl e"
  shows "read_logfile ms logf = Inl e"
proof -
  let ?f = "\<lambda>i. (i, logf ! i)"
  from assms(1) have "[0..<length logf] = [0..<i] @ i # [Suc i..<length logf]"
    by (metis le0 less_imp_le_nat upt_add_eq_append upt_conv_Cons le_add_diff_inverse)
  then have e: "enumerate 0 logf = map ?f [0..<i] @ (i, logf ! i) # map ?f [Suc i..<length logf]"
    by (simp add: enumerate_nth)
  have "\<forall>p\<in>set (map ?f [0..<i]). re_method_match ms (snd p)
          \<longrightarrow> (\<exists>r. parse_run ms logf (fst p) (snd p) = Inr r)"
    using assms(3) by auto
  from scan_lines_first_error[OF this assms(2) assms(4)] show ?thesis
    by (simp add: read_logfile_def e)
qed

lemma read_logfile_error:
  assumes "i < length logf" and "re_method_match ms (logf ! i)"
    and "parse_run ms logf i (logf ! i) = Inl e"
  shows "\<exists>e'. read_logfile ms logf = Inl e'"
proof (cases "read_logfile ms logf")
  case (Inl a)
  then show ?thesis by blast
next
  case (Inr rows)
  from read_logfile_start[OF Inr assms(1,2)] assms(3) show ?thesis by auto
qed

lemma read_increments_off_end:
  "(\<forall>k. i + j \<le> k \<and> k < length logf \<longrightarrow> (\<exists>row. increment_row (strip (logf ! k)) = Some (Inr row)))
     \<Longrightarrow> read_increments logf i j jd = Inl IndexError"
proof (induction logf i j jd rule: read_increments.induct)
  case (1 logf i j jd)
  show ?case
  proof (cases "length logf \<le> i + j")
    case True
    then show ?thesis by (subst read_increments.simps) simp
  next
    case False
    with "1.prems" obtain row where row: "increment_row (strip (logf ! (i + j))) = Some (Inr row)"
      by (metis le_refl not_le)
    obtain m c n where mcn: "row = (m, c, n)" by (cases row)
    have "\<forall>k. i + Suc j \<le> k \<and> k < length logf \<longrightarrow> (\<exists>row. increment_row (strip (logf ! k)) = Some (Inr row))"
      using "1.prems" by simp
    from "1.IH"[OF False row refl mcn[symmetric] refl this]
    have "read_increments logf i (Suc j) \<lparr>minutes = minutes jd @ [m], counts = counts jd @ [c],
                  increments = increments jd @ [n]\<rparr> = Inl IndexError" by simp
    with False row mcn show ?thesis by (subst read_increments.simps) simp
  qed
qed

lemma parse_run_no_next:
  "run_timestamp line = Inr dt \<Longrightarrow> length logf \<le> i + 1 \<Longrightarrow> parse_run ms logf i line = Inl IndexError"
  by (simp add: parse_run_def)

lemma parse_run_no_name:
  "run_timestamp line = Inr dt \<Longrightarrow> i + 1 < length logf \<Longrightarrow> get_sample_name i (logf ! (i + 1)) = None
     \<Longrightarrow> parse_run ms logf i line = Inl (BottleNameNotFound (i + 1))"
  by (simp add: parse_run_def)

lemma parse_run_off_end:
  assumes "run_timestamp line = Inr dt" and "get_sample_name i (logf ! (i + 1)) \<noteq> None"
    and "\<forall>k. i + 4 \<le> k \<and> k < length logf \<longrightarrow> (\<exists>row. increment_row (strip (logf ! k)) = Some (Inr row))"
  shows "parse_run ms logf i line = Inl IndexError"
  using assms(1,2) read_increments_off_end[OF assms(3)]
  by (auto simp: parse_run_def)

lemma parse_run_needs_stop:
  assumes "parse_run ms logf i line = Inr r"
  shows "i + 1 < length logf \<and> (\<exists>j\<ge>4. i + j < length logf \<and> re_increments (strip (logf ! (i + j))) = None
     \<and> (\<forall>k. 4 \<le> k \<and> k < j \<longrightarrow> re_increments (strip (logf ! (i + k))) \<noteq> None))"
proof -
  from parse_run_Inr[OF assms] obtain j where
    j: "read_increments logf i 4 \<lparr>minutes = [0], counts = [0], increments = [0]\<rparr> = Inr (table r, j)"
    and n: "i + 1 < length logf" by blast
  from read_increments_Inr[OF j] have "4 \<le> j" "i + j < length logf"
    "re_increments (strip (logf ! (i + j))) = None"
    "\<forall>k. 4 \<le> k \<and> k < j \<longrightarrow> re_increments (strip (logf ! (i + k))) \<noteq> None"
    by (auto simp: increment_row_None[symmetric])
  with n show ?thesis by blast
qed

section \<open>The example files\<close>

lemmas example_defs = std1_logfile_def std1_row_def run_start_def increment_line_def
  other_logfile_def other_row_def crm_logfile_def crm_row_def empty_name_logfile_def
  empty_name_row_def no_name_logfile_def nameless_then_start_logfile_def
  empty_field_logfile_def start_last_logfile_def increments_last_logfile_def

lemma std1_parse: "read_logfile [''3C standard''] std1_logfile = Inr [std1_row]"
  unfolding example_defs by code_simp

lemma other_parse: "read_logfile [''3C standard''] other_logfile = Inr [other_row]"
  unfolding example_defs by code_simp

lemma crm_parse: "read_logfile [''3C standard''] crm_logfile = Inr [crm_row]"
  unfolding example_defs by code_simp

lemma empty_name_parse:
  "read_logfile [''3C standard''] empty_name_logfile = Inr [empty_name_row]"
  unfolding example_defs by code_simp

lemma not_isl_Inr: "\<not> isl x \<Longrightarrow> \<exists>r. x = Inr r"
  by (cases x) auto

section \<open>The claims about \<^verbatim>\<open>read_logfile\<close>\<close>

text \<open>
  Claim C1, as the code has it: for every run of a successful parse, the total counts of the
  row is the \<^verbatim>\<open>counts\<close> value of the last row of its increment table (line 84 reads
  \<^verbatim>\<open>jdict['counts'][-1]\<close>), and that table is never empty.
\<close>

theorem totalcounts_is_last_counts:
  assumes "read_logfile methods logf = Inr rows" and "r \<in> set rows"
  shows "counts (table r) \<noteq> [] \<and> totalcounts r = last (counts (table r))"
proof -
  from read_logfile_row[OF assms] obtain i where
    p: "parse_run methods logf i (logf ! i) = Inr r" by blast
  from parse_run_table[OF p] have "counts (table r) \<noteq> []" by auto
  with parse_run_Inr[OF p] show ?thesis by simp
qed


text \<open>The theorem of C1 on the file \<open>std1_logfile\<close>.\<close>

theorem totalcounts_is_last_counts_witness:
  "read_logfile [''3C standard''] std1_logfile = Inr [std1_row] \<and> std1_row \<in> set [std1_row]
     \<and> counts (table std1_row) \<noteq> [] \<and> totalcounts std1_row = last (counts (table std1_row))"
  using totalcounts_is_last_counts[OF std1_parse, of std1_row] std1_parse by simp


text \<open>
  C1 as the specification states it fails: the run of \<open>std1_logfile\<close> has the increment line
  \<^verbatim>\<open>1<TAB>2<TAB>3<TAB>4\<close>, so its last \<^verbatim>\<open>counts\<close> is 2 and its last \<^verbatim>\<open>increments\<close> is 3, and the
  total counts are 2.
\<close>

theorem totalcounts_is_not_last_increment:
  "read_logfile [''3C standard''] std1_logfile = Inr [std1_row]
     \<and> totalcounts std1_row = 2 \<and> last (counts (table std1_row)) = 2
     \<and> last (increments (table std1_row)) = 3
     \<and> totalcounts std1_row \<noteq> last (increments (table std1_row))"
  using std1_parse by (simp add: std1_row_def)

text \<open>
  Claim C3, as the code has it: the sample name of a parsed run comes from the line after the
  run-start line, by the bottle pattern first, then the CRM pattern, then the literal
  \<^verbatim>\<open>other\<close>, whose label carries the index of the run-start line plus one, which is the index
  of the \<^verbatim>\<open>other\<close> line itself. \<^verbatim>\<open>bottle<TAB>STD1<TAB>\<close> gives \<^verbatim>\<open>STD1\<close>, \<^verbatim>\<open>CRM<TAB>BATCH9<TAB>\<close> gives
  \<^verbatim>\<open>BATCH9\<close>, and a bare \<^verbatim>\<open>other\<close> line at index 42 (run start at index 41) gives
  \<^verbatim>\<open>other_42\<close>.
\<close>

theorem sample_name_derivation:
  assumes "read_logfile methods logf = Inr rows" and "r \<in> set rows"
  shows "logfileline r + 1 < length logf
     \<and> (\<forall>n. re_bottle (logf ! (logfileline r + 1)) = Some n \<longrightarrow> bottle r = n)
     \<and> (\<forall>n. re_bottle (logf ! (logfileline r + 1)) = None
            \<and> re_crm (logf ! (logfileline r + 1)) = Some n \<longrightarrow> bottle r = n)
     \<and> (re_bottle (logf ! (logfileline r + 1)) = None \<and> re_crm (logf ! (logfileline r + 1)) = None
          \<longrightarrow> logf ! (logfileline r + 1) = ''other''
              \<and> bottle r = ''other_'' @ string_of_nat (logfileline r + 1))
     \<and> re_bottle (''bottle'' @ [tab] @ ''STD1'' @ [tab]) = Some ''STD1''
     \<and> re_bottle (''CRM'' @ [tab] @ ''BATCH9'' @ [tab]) = None
     \<and> re_crm (''CRM'' @ [tab] @ ''BATCH9'' @ [tab]) = Some ''BATCH9''
     \<and> re_bottle ''other'' = None \<and> re_crm ''other'' = None
     \<and> ''other_'' @ string_of_nat (41 + 1) = ''other_42''"
proof -
  from read_logfile_row[OF assms] obtain i where
    p: "parse_run methods logf i (logf ! i) = Inr r" by blast
  from parse_run_Inr[OF p] have i: "logfileline r = i" "i + 1 < length logf"
    and g: "get_sample_name i (logf ! (i + 1)) = Some (bottle r)" by simp_all
  have 1: "\<forall>n. re_bottle (logf ! (i + 1)) = Some n \<longrightarrow> bottle r = n"
    using g by (auto simp: get_sample_name_def)
  have 2: "\<forall>n. re_bottle (logf ! (i + 1)) = None \<and> re_crm (logf ! (i + 1)) = Some n \<longrightarrow> bottle r = n"
    using g by (auto simp: get_sample_name_def)
  have 3: "re_bottle (logf ! (i + 1)) = None \<and> re_crm (logf ! (i + 1)) = None
          \<longrightarrow> logf ! (i + 1) = ''other'' \<and> bottle r = ''other_'' @ string_of_nat (i + 1)"
    using g by (auto simp: get_sample_name_def split: option.splits if_splits)
  have 4: "re_bottle (''bottle'' @ [tab] @ ''STD1'' @ [tab]) = Some ''STD1''"
    by code_simp
  have 5: "re_bottle (''CRM'' @ [tab] @ ''BATCH9'' @ [tab]) = None"
    by code_simp
  have 6: "re_crm (''CRM'' @ [tab] @ ''BATCH9'' @ [tab]) = Some ''BATCH9''"
    by code_simp
  have 7: "re_bottle ''other'' = None" "re_crm ''other'' = None"
    by code_simp+
  have 8: "''other_'' @ string_of_nat (41 + 1) = ''other_42''"
    by code_simp
  from i 1 2 3 4 5 6 7 8 show ?thesis by simp
qed


text \<open>The theorem of C3 on \<open>other_logfile\<close>, whose run starts at index 41.\<close>

theorem sample_name_derivation_witness:
  "read_logfile [''3C standard''] other_logfile = Inr [other_row] \<and> other_row \<in> set [other_row]
     \<and> logfileline other_row = 41 \<and> other_logfile ! 42 = ''other''
     \<and> re_bottle (other_logfile ! 42) = None \<and> re_crm (other_logfile ! 42) = None
     \<and> bottle other_row = ''other_'' @ string_of_nat (41 + 1)
     \<and> ''other_'' @ string_of_nat (41 + 1) = ''other_42''"
proof -
  have r: "other_row \<in> set [other_row]" by simp
  have l: "logfileline other_row = 41" by (simp add: other_row_def)
  have o: "other_logfile ! 42 = ''other''" unfolding example_defs by code_simp
  have n: "re_bottle (other_logfile ! 42) = None" "re_crm (other_logfile ! 42) = None"
    unfolding o by code_simp+
  from sample_name_derivation[OF other_parse r] l o n other_parse show ?thesis by simp
qed


text \<open>
  C3 as the specification states it fails: the \<^verbatim>\<open>other\<close> line of \<open>other_logfile\<close> is at index
  42, and the label is \<^verbatim>\<open>other_42\<close>, not \<^verbatim>\<open>other_43\<close>.
\<close>

theorem other_label_is_not_43:
  "other_logfile ! 42 = ''other'' \<and> read_logfile [''3C standard''] other_logfile = Inr [other_row]
     \<and> bottle other_row = ''other_42'' \<and> bottle other_row \<noteq> ''other_43''"
proof -
  have o: "other_logfile ! 42 = ''other''" unfolding example_defs by code_simp
  with other_parse show ?thesis by (simp add: other_row_def)
qed

text \<open>
  Claim C4, as the code has it: the sample name of every returned row is the string that one
  of the three forms derives from the line after the run start; it is empty exactly when the
  bottle or the CRM pattern captures an empty name between its two tabs. When that line
  matches none of the three forms the parse returns nothing, and the error is the assertion
  that names line \<open>i + 1\<close> whenever the runs before it parse and the timestamp of the run is
  read.
\<close>

theorem sample_name_string_or_fatal:
  "(read_logfile methods logf = Inr rows \<and> r \<in> set rows \<longrightarrow>
      logfileline r + 1 < length logf
      \<and> get_sample_name (logfileline r) (logf ! (logfileline r + 1)) = Some (bottle r)
      \<and> (bottle r = [] \<longleftrightarrow>
           re_bottle (logf ! (logfileline r + 1)) = Some []
           \<or> (re_bottle (logf ! (logfileline r + 1)) = None
                \<and> re_crm (logf ! (logfileline r + 1)) = Some [])))
   \<and> (i + 1 < length logf \<and> re_method_match methods (logf ! i)
        \<and> get_sample_name i (logf ! (i + 1)) = None \<longrightarrow>
      (\<exists>e. read_logfile methods logf = Inl e)
      \<and> ((\<forall>i'<i. re_method_match methods (logf ! i')
                   \<longrightarrow> (\<exists>r'. parse_run methods logf i' (logf ! i') = Inr r'))
           \<and> (\<exists>dt. run_timestamp (logf ! i) = Inr dt)
         \<longrightarrow> read_logfile methods logf = Inl (BottleNameNotFound (i + 1))))"
proof (intro conjI impI)
  assume a: "read_logfile methods logf = Inr rows \<and> r \<in> set rows"
  then obtain k where p: "parse_run methods logf k (logf ! k) = Inr r"
    using read_logfile_row by blast
  from parse_run_Inr[OF p] have k: "logfileline r = k" "k + 1 < length logf"
    and g: "get_sample_name k (logf ! (k + 1)) = Some (bottle r)" by simp_all
  from k show "logfileline r + 1 < length logf" by simp
  from k g show "get_sample_name (logfileline r) (logf ! (logfileline r + 1)) = Some (bottle r)"
    by simp
  from g k show "bottle r = [] \<longleftrightarrow>
           re_bottle (logf ! (logfileline r + 1)) = Some []
           \<or> (re_bottle (logf ! (logfileline r + 1)) = None
                \<and> re_crm (logf ! (logfileline r + 1)) = Some [])"
    by (auto simp: get_sample_name_def split: option.splits if_splits)
next
  assume a: "i + 1 < length logf \<and> re_method_match methods (logf ! i)
        \<and> get_sample_name i (logf ! (i + 1)) = None"
  then have il: "i < length logf" by simp
  have "\<exists>e. parse_run methods logf i (logf ! i) = Inl e"
  proof (cases "parse_run methods logf i (logf ! i)")
    case (Inr r')
    from parse_run_Inr[OF Inr] a show ?thesis by simp
  qed blast
  then obtain e where "parse_run methods logf i (logf ! i) = Inl e" ..
  from read_logfile_error[OF il _ this] a show "\<exists>e. read_logfile methods logf = Inl e" by blast
next
  assume a: "i + 1 < length logf \<and> re_method_match methods (logf ! i)
        \<and> get_sample_name i (logf ! (i + 1)) = None"
    and b: "(\<forall>i'<i. re_method_match methods (logf ! i')
                   \<longrightarrow> (\<exists>r'. parse_run methods logf i' (logf ! i') = Inr r'))
           \<and> (\<exists>dt. run_timestamp (logf ! i) = Inr dt)"
  from b obtain dt where dt: "run_timestamp (logf ! i) = Inr dt" by blast
  from a have il: "i < length logf" by simp
  from parse_run_no_name[OF dt, of i logf methods] a
  have "parse_run methods logf i (logf ! i) = Inl (BottleNameNotFound (i + 1))" by simp
  from read_logfile_first_error[OF il _ _ this] a b
  show "read_logfile methods logf = Inl (BottleNameNotFound (i + 1))" by blast
qed

text \<open>
  The theorem of C4 on \<open>std1_logfile\<close> and on \<open>no_name_logfile\<close>, whose second run, at
  index 6, is followed by a line of no known form.
\<close>

theorem sample_name_string_or_fatal_witness:
  "read_logfile [''3C standard''] std1_logfile = Inr [std1_row] \<and> std1_row \<in> set [std1_row]
   \<and> get_sample_name (logfileline std1_row) (std1_logfile ! (logfileline std1_row + 1))
        = Some (bottle std1_row)
   \<and> 6 + 1 < length no_name_logfile
   \<and> re_method_match [''3C standard''] (no_name_logfile ! 6)
   \<and> get_sample_name 6 (no_name_logfile ! (6 + 1)) = None
   \<and> read_logfile [''3C standard''] no_name_logfile = Inl (BottleNameNotFound (6 + 1))"
proof -
  have r: "std1_row \<in> set [std1_row]" by simp
  have a: "6 + 1 < length no_name_logfile
      \<and> re_method_match [''3C standard''] (no_name_logfile ! 6)
      \<and> get_sample_name 6 (no_name_logfile ! (6 + 1)) = None"
    unfolding example_defs by code_simp
  have "list_all (\<lambda>i'. re_method_match [''3C standard''] (no_name_logfile ! i')
       \<longrightarrow> \<not> isl (parse_run [''3C standard''] no_name_logfile i' (no_name_logfile ! i')))
     [0..<6]"
    unfolding example_defs by code_simp
  then have b: "\<forall>i'<6. re_method_match [''3C standard''] (no_name_logfile ! i')
       \<longrightarrow> (\<exists>r'. parse_run [''3C standard''] no_name_logfile i' (no_name_logfile ! i') = Inr r')"
    by (auto simp: list_all_iff intro: not_isl_Inr)
  have "run_timestamp (no_name_logfile ! 6) = Inr example_timestamp"
    unfolding example_defs example_timestamp_def by code_simp
  then have dt: "\<exists>dt. run_timestamp (no_name_logfile ! 6) = Inr dt" ..
  from sample_name_string_or_fatal[of "[''3C standard'']" std1_logfile "[std1_row]" std1_row]
    std1_parse r
  have 1: "get_sample_name (logfileline std1_row) (std1_logfile ! (logfileline std1_row + 1))
            = Some (bottle std1_row)"
    by blast
  from sample_name_string_or_fatal[of "[''3C standard'']" no_name_logfile _ _ 6] a b dt
  have 2: "read_logfile [''3C standard''] no_name_logfile = Inl (BottleNameNotFound (6 + 1))"
    by blast
  from 1 2 a r std1_parse show ?thesis by simp
qed


text \<open>
  C4 as the specification states it fails: the line \<^verbatim>\<open>bottle<TAB><TAB>\<close> matches the bottle
  pattern with an empty name, and the row is returned with the empty string as its bottle.
\<close>

theorem sample_name_may_be_empty:
  "read_logfile [''3C standard''] empty_name_logfile = Inr [empty_name_row]
     \<and> bottle empty_name_row = []"
  using empty_name_parse by (simp add: empty_name_row_def)

text \<open>
  Claim C7: for every run of a successful parse the increment table starts with the row
  \<open>(0, 0, 0)\<close>, its three columns have one length, and when the line four lines after the run
  start does not match the increment pattern the table is that single row.
\<close>

theorem increment_table_seeded:
  assumes "read_logfile methods logf = Inr rows" and "r \<in> set rows"
  shows "(\<exists>ms cs ns. table r = \<lparr>minutes = 0 # ms, counts = 0 # cs, increments = 0 # ns\<rparr>
             \<and> length ms = length cs \<and> length cs = length ns)
         \<and> (re_increments (strip (logf ! (logfileline r + 4))) = None
              \<longrightarrow> table r = \<lparr>minutes = [0], counts = [0], increments = [0]\<rparr>)"
proof -
  from read_logfile_row[OF assms] obtain i where
    p: "parse_run methods logf i (logf ! i) = Inr r" by blast
  from parse_run_Inr[OF p] have "logfileline r = i" by simp
  with parse_run_table[OF p] parse_run_no_increments[OF p] show ?thesis by simp
qed


text \<open>
  The theorem of C7 on \<open>crm_logfile\<close>, a run with two increment lines, and on
  \<open>other_logfile\<close>, a run with none.
\<close>

theorem increment_table_seeded_witness:
  "read_logfile [''3C standard''] crm_logfile = Inr [crm_row] \<and> crm_row \<in> set [crm_row]
   \<and> (\<exists>ms cs ns. table crm_row = \<lparr>minutes = 0 # ms, counts = 0 # cs, increments = 0 # ns\<rparr>
         \<and> length ms = length cs \<and> length cs = length ns)
   \<and> read_logfile [''3C standard''] other_logfile = Inr [other_row] \<and> other_row \<in> set [other_row]
   \<and> re_increments (strip (other_logfile ! (logfileline other_row + 4))) = None
   \<and> table other_row = \<lparr>minutes = [0], counts = [0], increments = [0]\<rparr>"
proof -
  have c: "crm_row \<in> set [crm_row]" and o: "other_row \<in> set [other_row]" by simp_all
  have n: "re_increments (strip (other_logfile ! (logfileline other_row + 4))) = None"
    unfolding example_defs by code_simp
  from increment_table_seeded[OF crm_parse c]
  have 1: "\<exists>ms cs ns. table crm_row = \<lparr>minutes = 0 # ms, counts = 0 # cs, increments = 0 # ns\<rparr>
         \<and> length ms = length cs \<and> length cs = length ns" by blast
  from increment_table_seeded[OF other_parse o] n
  have 2: "table other_row = \<lparr>minutes = [0], counts = [0], increments = [0]\<rparr>" by blast
  from 1 2 n c o crm_parse other_parse show ?thesis by blast
qed

text \<open>
  Claim C10, as the code has it: \<^verbatim>\<open>read_logfile\<close> returns a table only when every run-start
  line has a line after it and a line at offset four or more, inside the file, that does
  not match the increment pattern, every line between offset four and that line matching.
  When a run start is the last line, or the lines from offset four on match up to the last
  line of the file, the parse raises; the error is the out-of-range \<^verbatim>\<open>IndexError\<close> when the
  runs before parse, the timestamp of the run is read, its sample name is found and no
  matched increment line has an empty field.
\<close>

theorem read_logfile_needs_terminated_runs:
  assumes "i < length logf" and "re_method_match methods (logf ! i)"
  shows "(read_logfile methods logf = Inr rows \<longrightarrow>
            i + 1 < length logf
            \<and> (\<exists>j\<ge>4. i + j < length logf \<and> re_increments (strip (logf ! (i + j))) = None
                 \<and> (\<forall>k. 4 \<le> k \<and> k < j \<longrightarrow> re_increments (strip (logf ! (i + k))) \<noteq> None)))
       \<and> (length logf \<le> i + 1
            \<or> (\<forall>k. i + 4 \<le> k \<and> k < length logf \<longrightarrow> re_increments (strip (logf ! k)) \<noteq> None)
          \<longrightarrow> (\<exists>e. read_logfile methods logf = Inl e))
       \<and> ((\<forall>i'<i. re_method_match methods (logf ! i')
                    \<longrightarrow> (\<exists>r. parse_run methods logf i' (logf ! i') = Inr r))
            \<and> (\<exists>dt. run_timestamp (logf ! i) = Inr dt)
            \<and> (length logf \<le> i + 1
                 \<or> (get_sample_name i (logf ! (i + 1)) \<noteq> None
                      \<and> (\<forall>k. i + 4 \<le> k \<and> k < length logf
                            \<longrightarrow> (\<exists>row. increment_row (strip (logf ! k)) = Some (Inr row)))))
          \<longrightarrow> read_logfile methods logf = Inl IndexError)"
proof -
  have 1: "i + 1 < length logf
            \<and> (\<exists>j\<ge>4. i + j < length logf \<and> re_increments (strip (logf ! (i + j))) = None
                 \<and> (\<forall>k. 4 \<le> k \<and> k < j \<longrightarrow> re_increments (strip (logf ! (i + k))) \<noteq> None))"
    if "read_logfile methods logf = Inr rows'" for rows'
  proof -
    from read_logfile_start[OF that assms] obtain r where
      "parse_run methods logf i (logf ! i) = Inr r" by blast
    from parse_run_needs_stop[OF this] show ?thesis .
  qed
  have 2: "\<exists>e. read_logfile methods logf = Inl e"
    if v: "length logf \<le> i + 1
            \<or> (\<forall>k. i + 4 \<le> k \<and> k < length logf \<longrightarrow> re_increments (strip (logf ! k)) \<noteq> None)"
  proof (cases "read_logfile methods logf")
    case (Inl e)
    then show ?thesis by blast
  next
    case (Inr rows')
    from 1[OF Inr] obtain j where j: "i + 1 < length logf" "4 \<le> j" "i + j < length logf"
      "re_increments (strip (logf ! (i + j))) = None" by blast
    from v j(1) have "\<forall>k. i + 4 \<le> k \<and> k < length logf \<longrightarrow> re_increments (strip (logf ! k)) \<noteq> None"
      by simp
    with j(2,3) have "re_increments (strip (logf ! (i + j))) \<noteq> None" by simp
    with j(4) show ?thesis by simp
  qed
  have 3: "read_logfile methods logf = Inl IndexError"
    if e: "\<forall>i'<i. re_method_match methods (logf ! i')
                    \<longrightarrow> (\<exists>r. parse_run methods logf i' (logf ! i') = Inr r)"
      and t: "\<exists>dt. run_timestamp (logf ! i) = Inr dt"
      and v: "length logf \<le> i + 1
                 \<or> (get_sample_name i (logf ! (i + 1)) \<noteq> None
                      \<and> (\<forall>k. i + 4 \<le> k \<and> k < length logf
                            \<longrightarrow> (\<exists>row. increment_row (strip (logf ! k)) = Some (Inr row))))"
  proof -
    from t obtain dt where dt: "run_timestamp (logf ! i) = Inr dt" ..
    from v have "parse_run methods logf i (logf ! i) = Inl IndexError"
    proof
      assume "length logf \<le> i + 1"
      from parse_run_no_next[OF dt this] show ?thesis .
    next
      assume "get_sample_name i (logf ! (i + 1)) \<noteq> None
                      \<and> (\<forall>k. i + 4 \<le> k \<and> k < length logf
                            \<longrightarrow> (\<exists>row. increment_row (strip (logf ! k)) = Some (Inr row)))"
      then show ?thesis using parse_run_off_end[OF dt] by blast
    qed
    from read_logfile_first_error[OF assms e this] show ?thesis .
  qed
  from 1 2 3 show ?thesis by blast
qed


text \<open>
  The theorem of C10 on \<open>std1_logfile\<close>, on \<open>start_last_logfile\<close>, whose last line is a run
  start, and on \<open>increments_last_logfile\<close>, whose last two lines are increment lines.
\<close>

theorem read_logfile_needs_terminated_runs_witness:
  "0 < length std1_logfile \<and> re_method_match [''3C standard''] (std1_logfile ! 0)
   \<and> read_logfile [''3C standard''] std1_logfile = Inr [std1_row]
   \<and> (\<exists>j\<ge>4. 0 + j < length std1_logfile
         \<and> re_increments (strip (std1_logfile ! (0 + j))) = None
         \<and> (\<forall>k. 4 \<le> k \<and> k < j \<longrightarrow> re_increments (strip (std1_logfile ! (0 + k))) \<noteq> None))
   \<and> 6 < length start_last_logfile \<and> re_method_match [''3C standard''] (start_last_logfile ! 6)
   \<and> length start_last_logfile \<le> 6 + 1
   \<and> read_logfile [''3C standard''] start_last_logfile = Inl IndexError
   \<and> 6 < length increments_last_logfile
   \<and> re_method_match [''3C standard''] (increments_last_logfile ! 6)
   \<and> re_increments (strip (last increments_last_logfile)) \<noteq> None
   \<and> read_logfile [''3C standard''] increments_last_logfile = Inl IndexError"
proof -
  let ?m = "[''3C standard'']"
  have a0: "0 < length std1_logfile" "re_method_match ?m (std1_logfile ! 0)"
    unfolding example_defs by code_simp+
  have a1: "6 < length start_last_logfile" "re_method_match ?m (start_last_logfile ! 6)"
    "length start_last_logfile \<le> 6 + 1"
    unfolding example_defs by code_simp+
  have a2: "6 < length increments_last_logfile"
    "re_method_match ?m (increments_last_logfile ! 6)"
    "re_increments (strip (last increments_last_logfile)) \<noteq> None"
    "get_sample_name 6 (increments_last_logfile ! (6 + 1)) \<noteq> None"
    "length increments_last_logfile = 12"
    "increment_row (strip (increments_last_logfile ! 10)) = Some (Inr (1, 2, 3))"
    "increment_row (strip (increments_last_logfile ! 11)) = Some (Inr (2, 4, 2))"
    unfolding example_defs by code_simp+
  have k2: "\<forall>k. 6 + 4 \<le> k \<and> k < length increments_last_logfile
              \<longrightarrow> (\<exists>row. increment_row (strip (increments_last_logfile ! k)) = Some (Inr row))"
  proof (intro allI impI)
    fix k assume "6 + 4 \<le> k \<and> k < length increments_last_logfile"
    with a2(5) have "k = 10 \<or> k = 11" by arith
    with a2(6,7) show "\<exists>row. increment_row (strip (increments_last_logfile ! k)) = Some (Inr row)"
      by blast
  qed
  have "list_all (\<lambda>i'. re_method_match ?m (start_last_logfile ! i')
       \<longrightarrow> \<not> isl (parse_run ?m start_last_logfile i' (start_last_logfile ! i'))) [0..<6]"
    unfolding example_defs by code_simp
  then have b1: "\<forall>i'<6. re_method_match ?m (start_last_logfile ! i')
       \<longrightarrow> (\<exists>r'. parse_run ?m start_last_logfile i' (start_last_logfile ! i') = Inr r')"
    by (auto simp: list_all_iff intro: not_isl_Inr)
  have "list_all (\<lambda>i'. re_method_match ?m (increments_last_logfile ! i')
       \<longrightarrow> \<not> isl (parse_run ?m increments_last_logfile i' (increments_last_logfile ! i'))) [0..<6]"
    unfolding example_defs by code_simp
  then have b2: "\<forall>i'<6. re_method_match ?m (increments_last_logfile ! i')
       \<longrightarrow> (\<exists>r'. parse_run ?m increments_last_logfile i' (increments_last_logfile ! i') = Inr r')"
    by (auto simp: list_all_iff intro: not_isl_Inr)
  have "run_timestamp (start_last_logfile ! 6) = Inr example_timestamp"
    unfolding example_defs example_timestamp_def by code_simp
  then have dt1: "\<exists>dt. run_timestamp (start_last_logfile ! 6) = Inr dt" ..
  have "run_timestamp (increments_last_logfile ! 6) = Inr example_timestamp"
    unfolding example_defs example_timestamp_def by code_simp
  then have dt2: "\<exists>dt. run_timestamp (increments_last_logfile ! 6) = Inr dt" ..
  from read_logfile_needs_terminated_runs[OF a0, of "[std1_row]"] std1_parse
  have 1: "\<exists>j\<ge>4. 0 + j < length std1_logfile
         \<and> re_increments (strip (std1_logfile ! (0 + j))) = None
         \<and> (\<forall>k. 4 \<le> k \<and> k < j \<longrightarrow> re_increments (strip (std1_logfile ! (0 + k))) \<noteq> None)"
    by blast
  from read_logfile_needs_terminated_runs[OF a1(1,2)] b1 dt1 a1(3)
  have 2: "read_logfile ?m start_last_logfile = Inl IndexError" by blast
  from read_logfile_needs_terminated_runs[OF a2(1,2)] b2 dt2 a2(4) k2
  have 3: "read_logfile ?m increments_last_logfile = Inl IndexError" by blast
  from a0 a1 a2(1,2,3) 1 2 3 std1_parse show ?thesis by blast
qed


text \<open>
  C10 as stated fails on the kind of the error: in \<open>nameless_then_start_logfile\<close> the last
  line is a run start and the parse stops earlier, on the assertion of the first run; in
  \<open>empty_field_logfile\<close> the last line matches the increment pattern with an empty second
  field, and \<^verbatim>\<open>float('')\<close> raises \<^verbatim>\<open>ValueError\<close>.
\<close>

theorem error_at_end_of_file_need_not_be_index_error:
  "re_method_match [''3C standard''] (last nameless_then_start_logfile)
   \<and> read_logfile [''3C standard''] nameless_then_start_logfile = Inl (BottleNameNotFound 1)
   \<and> re_increments (strip (last empty_field_logfile)) \<noteq> None
   \<and> read_logfile [''3C standard''] empty_field_logfile = Inl ValueError"
  unfolding example_defs by code_simp

section \<open>Properties of \<^verbatim>\<open>logfile2dbs\<close> and \<^verbatim>\<open>get_blanks\<close>\<close>

lemmas blank_example_defs = blank_table_def blank_logfile_def std2_dbs_row_def absent_dbs_row_def
  std1_row_def example_timestamp_def

subsection \<open>Positions with a property, and \<open>apply_rows\<close>\<close>



lemma apply_rows_Inr_D:
  "apply_rows f xs = Inr ys \<Longrightarrow> list_all2 (\<lambda>x y. f x = Inr y) xs ys"
proof (induction xs arbitrary: ys)
  case Nil
  then show ?case by simp
next
  case (Cons x xs)
  from Cons.prems obtain y zs where "f x = Inr y" "apply_rows f xs = Inr zs" "ys = y # zs"
    by (auto split: sum.splits)
  with Cons.IH[of zs] show ?case by simp
qed

lemma apply_rows_Inr_I:
  "list_all2 (\<lambda>x y. f x = Inr y) xs ys \<Longrightarrow> apply_rows f xs = Inr ys"
  by (induction rule: list_all2_induct) simp_all

lemma apply_rows_Inl:
  "apply_rows f xs = Inl e \<Longrightarrow> \<exists>x\<in>set xs. f x = Inl e"
  by (induction xs) (auto split: sum.splits)

lemma apply_rows_total:
  "(\<forall>x\<in>set xs. \<exists>y. f x = Inr y) \<Longrightarrow> \<exists>ys. apply_rows f xs = Inr ys"
  by (induction xs) (auto split: sum.splits)



lemma apply_rows_first_error:
  "\<exists>x\<in>set xs. \<exists>e. f x = Inl e \<Longrightarrow> \<exists>x\<in>set xs. \<exists>e. f x = Inl e \<and> apply_rows f xs = Inl e"
proof (induction xs)
  case Nil
  then show ?case by simp
next
  case (Cons x xs)
  show ?case
  proof (cases "f x")
    case (Inl e)
    then show ?thesis by auto
  next
    case (Inr y)
    with Cons.prems have "\<exists>x\<in>set xs. \<exists>e. f x = Inl e" by auto
    from Cons.IH[OF this] obtain z e where "z \<in> set xs" "f z = Inl e" "apply_rows f xs = Inl e"
      by blast
    with Inr show ?thesis by auto
  qed
qed


lemmas matcher_example_defs = doubled_logfile_def default_index_dbs_def relabelled_dbs_def
  mixed_dbs_def blank_example_defs

subsection \<open>The mask and the mean\<close>

lemma zip_nth_upt:
  "length xs = length ys \<Longrightarrow> zip xs ys = map (\<lambda>p. (xs ! p, ys ! p)) [0..<length xs]"
  by (rule nth_equalityI) simp_all

lemma mask_index_positions:
  assumes "length mins = length arr"
  shows "mask_index arr (map f mins)
           = Inr (map (\<lambda>p. arr ! p) (filter (\<lambda>p. f (mins ! p)) [0..<length mins]))"
proof -
  have "filter snd (zip arr (map f mins))
          = map (\<lambda>p. (arr ! p, map f mins ! p)) (filter (\<lambda>p. map f mins ! p) [0..<length arr])"
    using assms by (simp add: zip_nth_upt filter_map comp_def)
  also have "filter (\<lambda>p. map f mins ! p) [0..<length arr] = filter (\<lambda>p. f (mins ! p)) [0..<length arr]"
    using assms by (intro filter_cong) auto
  finally show ?thesis using assms by (simp add: mask_index_def comp_def)
qed

lemma get_blanks_row_valid:
  assumes "0 < usefrom" and "logfile_iloc x = Some (Int64 k)" and "k < length logfile"
    and "length (minutes (table (logfile ! k))) = length (increments (table (logfile ! k)))"
  shows "get_blanks_row x logfile usefrom = Inr (mean_from_cutoff usefrom (table (logfile ! k)))"
  using assms(1-3) mask_index_positions[OF assms(4), of "\<lambda>m. usefrom \<le> m"]
  by (simp add: get_blanks_row_def mean_from_cutoff_def rows_from_cutoff_def np_mean_def Let_def)

lemma get_blanks_row_Inr:
  assumes "get_blanks_row x logfile usefrom = Inr b"
  shows "0 < usefrom \<and> (\<exists>k<length logfile. logfile_iloc x = Some (Int64 k)
            \<and> length (minutes (table (logfile ! k))) = length (increments (table (logfile ! k))))"
  using assms
  by (auto simp: get_blanks_row_def mask_index_def Let_def
           split: option.splits if_splits iloc.splits sum.splits)

section \<open>The claims about \<^verbatim>\<open>logfile2dbs\<close> and \<^verbatim>\<open>get_blanks\<close>\<close>




text \<open>
  What \<^verbatim>\<open>get_blanks\<close> computes when it returns: for a dbs row whose \<^verbatim>\<open>logfile_iloc\<close> is an
  integer position inside the logfile table, and every cutoff above 0, the blank is the
  arithmetic mean of the \<^verbatim>\<open>increments\<close> over exactly the increment table rows whose
  \<^verbatim>\<open>minutes\<close> is at least the cutoff (NaN when there is no such row); the columns of a table
  of \<^verbatim>\<open>read_logfile\<close> have one length (\<open>parse_run_table\<close>). Every table \<^verbatim>\<open>get_blanks\<close> returns
  holds that blank in every row. For minutes 0, 2, 4, 6, 8, 10 and increments 0, 1, 2, 3, 4,
  5 the blank from cutoff 6 is 4. The column holds integer positions only when every row
  of the dbs table has a match.
\<close>

theorem get_blanks_mean_from_cutoff:
  "(0 < usefrom \<and> logfile_iloc x = Some (Int64 k) \<and> k < length logfile
      \<and> length (minutes (table (logfile ! k))) = length (increments (table (logfile ! k)))
      \<longrightarrow> get_blanks_row x logfile usefrom
            = Inr (mean_from_cutoff usefrom (table (logfile ! k))))
   \<and> (0 < usefrom
        \<and> (\<forall>y\<in>set dbs. \<exists>k<length logfile. logfile_iloc y = Some (Int64 k)
              \<and> length (minutes (table (logfile ! k))) = length (increments (table (logfile ! k))))
      \<longrightarrow> (\<exists>out. get_blanks dbs logfile usefrom = Inr out))
   \<and> (get_blanks dbs logfile usefrom = Inr out \<and> i < length dbs
      \<longrightarrow> 0 < usefrom
          \<and> (\<exists>k<length logfile. logfile_iloc (dbs ! i) = Some (Int64 k)
                \<and> out ! i = (dbs ! i)\<lparr>blank_here :=
                                      Some (mean_from_cutoff usefrom (table (logfile ! k)))\<rparr>))
   \<and> mean_from_cutoff 6 blank_table = Num 4"
proof (intro conjI impI)
  assume "0 < usefrom \<and> logfile_iloc x = Some (Int64 k) \<and> k < length logfile
      \<and> length (minutes (table (logfile ! k))) = length (increments (table (logfile ! k)))"
  then show "get_blanks_row x logfile usefrom
            = Inr (mean_from_cutoff usefrom (table (logfile ! k)))"
    using get_blanks_row_valid by blast
next
  assume a: "0 < usefrom
        \<and> (\<forall>y\<in>set dbs. \<exists>k<length logfile. logfile_iloc y = Some (Int64 k)
              \<and> length (minutes (table (logfile ! k))) = length (increments (table (logfile ! k))))"
  then have "\<forall>y\<in>set dbs. \<exists>b. get_blanks_row y logfile usefrom = Inr b"
    using get_blanks_row_valid by blast
  from apply_rows_total[OF this] show "\<exists>out. get_blanks dbs logfile usefrom = Inr out"
    by (auto simp: get_blanks_def)
next
  assume a: "get_blanks dbs logfile usefrom = Inr out \<and> i < length dbs"
  then obtain bs where bs: "apply_rows (\<lambda>x. get_blanks_row x logfile usefrom) dbs = Inr bs"
    and o: "out = map2 (\<lambda>x b. x\<lparr>blank_here := Some b\<rparr>) dbs bs"
    by (auto simp: get_blanks_def split: sum.splits)
  from apply_rows_Inr_D[OF bs] have l: "length bs = length dbs"
    and n: "\<And>j. j < length dbs \<Longrightarrow> get_blanks_row (dbs ! j) logfile usefrom = Inr (bs ! j)"
    by (auto simp: list_all2_conv_all_nth)
  from a n[of i] have r: "get_blanks_row (dbs ! i) logfile usefrom = Inr (bs ! i)" by simp
  from get_blanks_row_Inr[OF r] obtain k where u: "0 < usefrom" and k: "k < length logfile"
    "logfile_iloc (dbs ! i) = Some (Int64 k)"
    "length (minutes (table (logfile ! k))) = length (increments (table (logfile ! k)))"
    by blast
  from get_blanks_row_valid[OF u k(2) k(1) k(3)] r
  have "bs ! i = mean_from_cutoff usefrom (table (logfile ! k))" by simp
  with a l o have "out ! i = (dbs ! i)\<lparr>blank_here :=
                                      Some (mean_from_cutoff usefrom (table (logfile ! k)))\<rparr>"
    by simp
  with k show "\<exists>k<length logfile. logfile_iloc (dbs ! i) = Some (Int64 k)
                \<and> out ! i = (dbs ! i)\<lparr>blank_here :=
                                      Some (mean_from_cutoff usefrom (table (logfile ! k)))\<rparr>"
    by blast
  from u show "0 < usefrom" .
next
  show "mean_from_cutoff 6 blank_table = Num 4"
    unfolding blank_table_def by code_simp
qed

text \<open>That theorem on the second row of \<open>blank_logfile\<close>, with the cutoff 6.\<close>

theorem get_blanks_mean_from_cutoff_witness:
  "(0::real) < 6 \<and> logfile_iloc (std2_dbs_row\<lparr>logfile_iloc := Some (Int64 1)\<rparr>) = Some (Int64 1)
   \<and> 1 < length blank_logfile \<and> table (blank_logfile ! 1) = blank_table
   \<and> length (minutes (table (blank_logfile ! 1))) = length (increments (table (blank_logfile ! 1)))
   \<and> get_blanks_row (std2_dbs_row\<lparr>logfile_iloc := Some (Int64 1)\<rparr>) blank_logfile 6
        = Inr (mean_from_cutoff 6 (table (blank_logfile ! 1)))
   \<and> mean_from_cutoff 6 blank_table = Num 4
   \<and> get_blanks [std2_dbs_row\<lparr>logfile_iloc := Some (Int64 1)\<rparr>] blank_logfile 6
        = Inr [std2_dbs_row\<lparr>logfile_iloc := Some (Int64 1), blank_here := Some (Num 4)\<rparr>]"
proof -
  let ?x = "std2_dbs_row\<lparr>logfile_iloc := Some (Int64 1)\<rparr>"
  have h: "(0::real) < 6 \<and> logfile_iloc ?x = Some (Int64 1) \<and> 1 < length blank_logfile
      \<and> length (minutes (table (blank_logfile ! 1))) = length (increments (table (blank_logfile ! 1)))"
    unfolding blank_example_defs by code_simp
  have t: "table (blank_logfile ! 1) = blank_table"
    unfolding blank_example_defs by code_simp
  have g: "get_blanks [?x] blank_logfile 6 = Inr [?x\<lparr>blank_here := Some (Num 4)\<rparr>]"
    unfolding blank_example_defs by code_simp
  note T = get_blanks_mean_from_cutoff[of 6 ?x 1 blank_logfile]
  note 1 = T[THEN conjunct1, THEN mp, OF h]
  note 4 = T[THEN conjunct2, THEN conjunct2, THEN conjunct2]
  from h t have h1: "(0::real) < 6" and h2: "logfile_iloc ?x = Some (Int64 1)"
    and h3: "1 < length blank_logfile"
    and h4: "length (minutes (table (blank_logfile ! 1)))
               = length (increments (table (blank_logfile ! 1)))"
    by simp_all
  show ?thesis
    using h1 h2 h3 t h4 1 4 g by (intro conjI)
qed

text \<open>
  Claim C6 does not hold of the code. In \<open>mixed_dbs\<close> the row \<^verbatim>\<open>STD2\<close> has a valid
  association, the run at position 1 of \<open>blank_logfile\<close>, whose blank from the cutoff 6 is
  the mean 4; the other row has no match. \<^verbatim>\<open>logfile2dbs\<close> then stores the column as floats,
  \<^verbatim>\<open>logfile.iloc[1.0]\<close> raises \<^verbatim>\<open>TypeError\<close>, and \<^verbatim>\<open>get_blanks\<close> raises instead of computing
  the blank of the matched row.
\<close>

theorem get_blanks_raises_on_matched_row_beside_no_match:
  "logfile2dbs_row std2_dbs_row blank_logfile = Inr (Num 1)
   \<and> mean_from_cutoff 6 (table (blank_logfile ! 1)) = Num 4
   \<and> logfile2dbs mixed_dbs blank_logfile
        = Inr [std2_dbs_row\<lparr>logfile_iloc := Some (Float64 (Num 1))\<rparr>,
               absent_dbs_row\<lparr>logfile_iloc := Some (Float64 NaN)\<rparr>]
   \<and> get_blanks_row (std2_dbs_row\<lparr>logfile_iloc := Some (Float64 (Num 1))\<rparr>) blank_logfile 6
        = Inl TypeError
   \<and> get_blanks [std2_dbs_row\<lparr>logfile_iloc := Some (Float64 (Num 1))\<rparr>,
                  absent_dbs_row\<lparr>logfile_iloc := Some (Float64 NaN)\<rparr>] blank_logfile 6
        = Inl TypeError"
  unfolding matcher_example_defs by code_simp

text \<open>
  Claim C2 does not hold of the code. For the dbs row \<open>absent_dbs_row\<close>, whose bottle
  \<^verbatim>\<open>STD3\<close> is absent from \<open>blank_logfile\<close>, \<^verbatim>\<open>logfile2dbs\<close> records NaN, and \<^verbatim>\<open>get_blanks\<close> then
  raises the \<^verbatim>\<open>TypeError\<close> of \<^verbatim>\<open>logfile.iloc[nan]\<close> instead of returning a missing blank; a
  matched row in the same table does not get its blank either.
\<close>

theorem get_blanks_raises_on_no_match:
  "bottle absent_dbs_row \<notin> set (map bottle blank_logfile)
   \<and> logfile2dbs [absent_dbs_row] blank_logfile
        = Inr [absent_dbs_row\<lparr>logfile_iloc := Some (Float64 NaN)\<rparr>]
   \<and> get_blanks [absent_dbs_row\<lparr>logfile_iloc := Some (Float64 NaN)\<rparr>] blank_logfile 6
        = Inl TypeError
   \<and> logfile2dbs [std2_dbs_row, absent_dbs_row] blank_logfile
        = Inr [std2_dbs_row\<lparr>logfile_iloc := Some (Float64 (Num 1))\<rparr>,
               absent_dbs_row\<lparr>logfile_iloc := Some (Float64 NaN)\<rparr>]
   \<and> get_blanks [std2_dbs_row\<lparr>logfile_iloc := Some (Float64 (Num 1))\<rparr>,
                  absent_dbs_row\<lparr>logfile_iloc := Some (Float64 NaN)\<rparr>] blank_logfile 6
        = Inl TypeError"
  unfolding blank_example_defs by code_simp

section \<open>Properties of \<^verbatim>\<open>get_licor_samples\<close>\<close>

text \<open>
  The loop over the dbs rows acts on every LI-COR row by itself; after the first \<open>n\<close> dbs rows
  a LI-COR row carries the last of them whose \<^verbatim>\<open>datenum\<close> it has reached, or NaN when it
  has reached none.
\<close>

lemma fold_tag_rows:
  "fold (tag_rows dbs) [0..<n] licor
     = map (fold (\<lambda>ix r. if dbs ! ix \<le> datenum r then r\<lparr>dbs_ix := Num ix\<rparr> else r) [0..<n]) licor"
proof (induction n)
  case 0
  show ?case by simp
next
  case (Suc n)
  then show ?case by (simp add: tag_rows_def)
qed

lemma fold_tag_row:
  fixes dbs :: "real list" and r :: licor_row
  defines "g \<equiv> \<lambda>n. fold (\<lambda>ix r. if dbs ! ix \<le> datenum r then r\<lparr>dbs_ix := Num ix\<rparr> else r) [0..<n]
                   (r\<lparr>dbs_ix := NaN\<rparr>)"
  shows "datenum (g n) = datenum r
     \<and> (dbs_ix (g n) = NaN \<longrightarrow> (\<forall>k<n. datenum r < dbs ! k))
     \<and> (\<forall>k0. dbs_ix (g n) = Num k0 \<longrightarrow>
           k0 < n \<and> dbs ! k0 \<le> datenum r \<and> (\<forall>k'. k0 < k' \<and> k' < n \<longrightarrow> datenum r < dbs ! k'))"
proof (induction n)
  case 0
  show ?case by (simp add: g_def)
next
  case (Suc n)
  have step: "g (Suc n) = (if dbs ! n \<le> datenum (g n) then (g n)\<lparr>dbs_ix := Num n\<rparr> else g n)"
    by (simp add: g_def)
  show ?case
  proof (cases "dbs ! n \<le> datenum r")
    case True
    with Suc step have "g (Suc n) = (g n)\<lparr>dbs_ix := Num n\<rparr>" by simp
    with Suc True show ?thesis by simp
  next
    case False
    with Suc step have e: "g (Suc n) = g n" by simp
    from False have lt: "datenum r < dbs ! n" by simp
    show ?thesis unfolding e
    proof (intro conjI allI impI)
      from Suc show "datenum (g n) = datenum r" by simp
    next
      fix k assume "dbs_ix (g n) = NaN" "k < Suc n"
      with Suc lt show "datenum r < dbs ! k" by (cases "k = n") auto
    next
      fix k0 assume k0: "dbs_ix (g n) = Num k0"
      with Suc show "k0 < Suc n" by auto
      from k0 Suc show "dbs ! k0 \<le> datenum r" by auto
      fix k' assume "k0 < k' \<and> k' < Suc n"
      with Suc k0 lt show "datenum r < dbs ! k'" by (cases "k' = n") auto
    qed
  qed
qed

lemma sorted_reached_iff:
  assumes "sorted (dbs :: real list)"
  shows "(\<exists>k<length dbs. dbs ! k \<le> t) \<longleftrightarrow> dbs \<noteq> [] \<and> dbs ! 0 \<le> t"
proof
  assume "\<exists>k<length dbs. dbs ! k \<le> t"
  then obtain k where k: "k < length dbs" "dbs ! k \<le> t" by blast
  from assms k(1) have "dbs ! 0 \<le> dbs ! k" by (simp add: sorted_iff_nth_mono)
  with k show "dbs \<noteq> [] \<and> dbs ! 0 \<le> t" by auto
next
  assume "dbs \<noteq> [] \<and> dbs ! 0 \<le> t"
  then show "\<exists>k<length dbs. dbs ! k \<le> t" by (intro exI[of _ 0]) simp
qed

lemma tagged_row_kept_iff:
  fixes dbs :: "real list" and r :: licor_row
  shows "dbs_ix (fold (\<lambda>ix r. if dbs ! ix \<le> datenum r then r\<lparr>dbs_ix := Num ix\<rparr> else r) [0..<n]
                   (r\<lparr>dbs_ix := NaN\<rparr>)) \<noteq> NaN \<longleftrightarrow> (\<exists>k<n. dbs ! k \<le> datenum r)"
proof -
  let ?g = "fold (\<lambda>ix r. if dbs ! ix \<le> datenum r then r\<lparr>dbs_ix := Num ix\<rparr> else r) [0..<n]
                   (r\<lparr>dbs_ix := NaN\<rparr>)"
  note f = fold_tag_row[of dbs n r]
  show ?thesis
  proof (cases "dbs_ix ?g")
    case NaN
    with f have "\<forall>k<n. datenum r < dbs ! k" by blast
    with NaN show ?thesis by auto
  next
    case (Num k0)
    with f have "k0 < n \<and> dbs ! k0 \<le> datenum r" by blast
    with Num show ?thesis by auto
  qed
qed

lemma get_licor_samples_rows:
  "get_licor_samples licor dbs
     = filter (\<lambda>r. dbs_ix r \<noteq> NaN)
         (map (\<lambda>r. fold (\<lambda>ix r. if dbs ! ix \<le> datenum r then r\<lparr>dbs_ix := Num ix\<rparr> else r)
                      [0..<length dbs] (r\<lparr>dbs_ix := NaN\<rparr>)) licor)"
  by (simp add: get_licor_samples_def fold_tag_rows comp_def)

text \<open>
  Claim C9, as the code has it: with the dbs timestamps in ascending order,
  \<^verbatim>\<open>get_licor_samples\<close> keeps, in their order, exactly the LI-COR rows whose timestamp is not
  before the first dbs timestamp, and tags every row it keeps with the position of the last
  dbs row whose timestamp the row has reached or passed. A LI-COR row with the timestamp
  of a dbs row is kept, and it is tagged with the position of the last dbs row that has
  that timestamp: the position of that dbs row itself when no later dbs row has the same
  timestamp.
\<close>

theorem get_licor_samples_last_reached:
  assumes "sorted dbs"
  shows "map datenum (get_licor_samples licor dbs)
           = filter (\<lambda>t. dbs \<noteq> [] \<and> dbs ! 0 \<le> t) (map datenum licor)
     \<and> (r \<in> set (get_licor_samples licor dbs) \<longrightarrow>
          (\<exists>k<length dbs. dbs_ix r = Num k \<and> dbs ! k \<le> datenum r
              \<and> (\<forall>k'. k < k' \<and> k' < length dbs \<longrightarrow> datenum r < dbs ! k')))
     \<and> (r \<in> set (get_licor_samples licor dbs) \<and> k < length dbs \<and> datenum r = dbs ! k
          \<longrightarrow> (\<exists>k0<length dbs. k \<le> k0 \<and> dbs ! k0 = dbs ! k \<and> dbs_ix r = Num k0
                 \<and> (\<forall>k'. k0 < k' \<and> k' < length dbs \<longrightarrow> dbs ! k < dbs ! k')))
     \<and> (r \<in> set (get_licor_samples licor dbs) \<and> k < length dbs \<and> datenum r = dbs ! k
          \<and> (\<forall>k'. k < k' \<and> k' < length dbs \<longrightarrow> dbs ! k' \<noteq> dbs ! k)
          \<longrightarrow> dbs_ix r = Num k)
     \<and> (x \<in> set licor \<and> k < length dbs \<and> datenum x = dbs ! k
          \<longrightarrow> (\<exists>r\<in>set (get_licor_samples licor dbs). datenum r = datenum x))"
proof -
  let ?g = "\<lambda>r :: licor_row.
              fold (\<lambda>ix r. if dbs ! ix \<le> datenum r then r\<lparr>dbs_ix := Num ix\<rparr> else r)
                   [0..<length dbs] (r\<lparr>dbs_ix := NaN\<rparr>)"
  have dn: "datenum (?g y) = datenum y" for y
    by (rule fold_tag_row[THEN conjunct1])
  have kept: "dbs_ix (?g y) \<noteq> NaN \<longleftrightarrow> dbs \<noteq> [] \<and> dbs ! 0 \<le> datenum y" for y
    using tagged_row_kept_iff[of dbs "length dbs" y] sorted_reached_iff[OF assms, of "datenum y"]
    by simp
  have 1: "map datenum (get_licor_samples licor dbs)
           = filter (\<lambda>t. dbs \<noteq> [] \<and> dbs ! 0 \<le> t) (map datenum licor)"
    unfolding get_licor_samples_rows
    by (simp only: filter_map map_map comp_def dn kept)
  have 2: "\<exists>k<length dbs. dbs_ix y = Num k \<and> dbs ! k \<le> datenum y
              \<and> (\<forall>k'. k < k' \<and> k' < length dbs \<longrightarrow> datenum y < dbs ! k')"
    if "y \<in> set (get_licor_samples licor dbs)" for y
  proof -
    from that obtain z where y: "y = ?g z" and n: "dbs_ix y \<noteq> NaN"
      unfolding get_licor_samples_rows by auto
    from n obtain k0 where k0: "dbs_ix y = Num k0" by (cases "dbs_ix y") auto
    from fold_tag_row[of dbs "length dbs" z] k0 y
    have "k0 < length dbs \<and> dbs ! k0 \<le> datenum z
            \<and> (\<forall>k'. k0 < k' \<and> k' < length dbs \<longrightarrow> datenum z < dbs ! k')" by blast
    with k0 y dn[of z] show ?thesis by auto
  qed
  have t: "\<exists>k0<length dbs. k \<le> k0 \<and> dbs ! k0 = dbs ! k \<and> dbs_ix r = Num k0
                 \<and> (\<forall>k'. k0 < k' \<and> k' < length dbs \<longrightarrow> dbs ! k < dbs ! k')"
    if a: "r \<in> set (get_licor_samples licor dbs) \<and> k < length dbs \<and> datenum r = dbs ! k"
  proof -
    from a 2[of r] obtain k0 where k0: "k0 < length dbs" "dbs_ix r = Num k0"
      "dbs ! k0 \<le> datenum r" "\<forall>k'. k0 < k' \<and> k' < length dbs \<longrightarrow> datenum r < dbs ! k'"
      by blast
    have "\<not> k0 < k" using k0(4) a by auto
    then have le: "k \<le> k0" by simp
    with assms k0(1) have "dbs ! k \<le> dbs ! k0" by (simp add: sorted_iff_nth_mono)
    with k0(3) a have eq: "dbs ! k0 = dbs ! k" by simp
    from k0(4) a have "\<forall>k'. k0 < k' \<and> k' < length dbs \<longrightarrow> dbs ! k < dbs ! k'" by simp
    with k0(1,2) le eq show ?thesis by blast
  qed
  have 3: "dbs_ix r = Num k"
    if a: "r \<in> set (get_licor_samples licor dbs) \<and> k < length dbs \<and> datenum r = dbs ! k
          \<and> (\<forall>k'. k < k' \<and> k' < length dbs \<longrightarrow> dbs ! k' \<noteq> dbs ! k)"
  proof -
    from a 2[of r] obtain k0 where k0: "k0 < length dbs" "dbs_ix r = Num k0"
      "dbs ! k0 \<le> datenum r" "\<forall>k'. k0 < k' \<and> k' < length dbs \<longrightarrow> datenum r < dbs ! k'"
      by blast
    have "\<not> k0 < k" using k0(4) a by auto
    moreover have "\<not> k < k0"
    proof
      assume l: "k < k0"
      with assms k0(1) have "dbs ! k \<le> dbs ! k0" by (simp add: sorted_iff_nth_mono)
      with k0(3) a have "dbs ! k0 = dbs ! k" by simp
      with a l k0(1) show False by blast
    qed
    ultimately have "k0 = k" by simp
    with k0(2) show ?thesis by simp
  qed
  have 4: "\<exists>r\<in>set (get_licor_samples licor dbs). datenum r = datenum x"
    if a: "x \<in> set licor \<and> k < length dbs \<and> datenum x = dbs ! k"
  proof -
    from a assms have "dbs ! 0 \<le> dbs ! k" by (simp add: sorted_iff_nth_mono)
    with a have "dbs \<noteq> [] \<and> dbs ! 0 \<le> datenum x" by auto
    moreover from a have "x \<in> set licor" by simp
    then have "datenum x \<in> set (map datenum licor)" by simp
    ultimately
    have "datenum x \<in> set (filter (\<lambda>t. dbs \<noteq> [] \<and> dbs ! 0 \<le> t) (map datenum licor))"
      by simp
    with 1 have "datenum x \<in> set (map datenum (get_licor_samples licor dbs))" by simp
    then show ?thesis by auto
  qed
  from 1 2[of r] t 3 4 show ?thesis by blast
qed

text \<open>
  The theorem of C9 on LI-COR rows at 1, 2, 3, 4, 5 and dbs rows at 2 and 4: the row at 1 is
  dropped, and the row at 4 is tagged with 1.
\<close>

theorem get_licor_samples_last_reached_witness:
  "sorted dbs_example
   \<and> get_licor_samples licor_example dbs_example
       = [\<lparr>datenum = 2, dbs_ix = Num 0\<rparr>, \<lparr>datenum = 3, dbs_ix = Num 0\<rparr>,
          \<lparr>datenum = 4, dbs_ix = Num 1\<rparr>, \<lparr>datenum = 5, dbs_ix = Num 1\<rparr>]
   \<and> map datenum (get_licor_samples licor_example dbs_example)
       = filter (\<lambda>t. dbs_example \<noteq> [] \<and> dbs_example ! 0 \<le> t) (map datenum licor_example)
   \<and> \<lparr>datenum = 4, dbs_ix = Num 1\<rparr> \<in> set (get_licor_samples licor_example dbs_example)
   \<and> (1::nat) < length dbs_example \<and> datenum \<lparr>datenum = 4, dbs_ix = Num 1\<rparr> = dbs_example ! 1
   \<and> length dbs_example = 2
   \<and> dbs_ix \<lparr>datenum = 4, dbs_ix = Num 1\<rparr> = Num 1
   \<and> (\<exists>k0<length dbs_example. 1 \<le> k0 \<and> dbs_example ! k0 = dbs_example ! 1
         \<and> dbs_ix \<lparr>datenum = 4, dbs_ix = Num 1\<rparr> = Num k0)
   \<and> (\<exists>k<length dbs_example. dbs_ix \<lparr>datenum = 3, dbs_ix = Num 0\<rparr> = Num k
         \<and> dbs_example ! k \<le> datenum \<lparr>datenum = 3, dbs_ix = Num 0\<rparr>)"
proof -
  let ?r4 = "\<lparr>datenum = 4, dbs_ix = Num 1\<rparr>" and ?r3 = "\<lparr>datenum = 3, dbs_ix = Num 0\<rparr>"
  have s: "sorted dbs_example" by (simp add: dbs_example_def)
  have e: "get_licor_samples licor_example dbs_example
       = [\<lparr>datenum = 2, dbs_ix = Num 0\<rparr>, ?r3, ?r4, \<lparr>datenum = 5, dbs_ix = Num 1\<rparr>]"
    unfolding licor_example_def dbs_example_def by code_simp
  have m4: "?r4 \<in> set (get_licor_samples licor_example dbs_example)"
    and m3: "?r3 \<in> set (get_licor_samples licor_example dbs_example)"
    unfolding e by simp_all
  have l: "(1::nat) < length dbs_example" and d: "datenum ?r4 = dbs_example ! 1"
    by (simp_all add: dbs_example_def)
  have n: "\<forall>k'. 1 < k' \<and> k' < length dbs_example \<longrightarrow> dbs_example ! k' \<noteq> dbs_example ! 1"
    by (simp add: dbs_example_def)
  note T4 = get_licor_samples_last_reached[OF s, of licor_example ?r4 1]
  note T3 = get_licor_samples_last_reached[OF s, of licor_example ?r3]
  note 1 = T4[THEN conjunct1]
  note 3 = T4[THEN conjunct2, THEN conjunct2, THEN conjunct2, THEN conjunct1, THEN mp,
              OF conjI[OF m4 conjI[OF l conjI[OF d n]]]]
  from T4[THEN conjunct2, THEN conjunct2, THEN conjunct1, THEN mp, OF conjI[OF m4 conjI[OF l d]]]
  have 4: "\<exists>k0<length dbs_example. 1 \<le> k0 \<and> dbs_example ! k0 = dbs_example ! 1
             \<and> dbs_ix ?r4 = Num k0"
    by blast
  from T3[THEN conjunct2, THEN conjunct1, THEN mp, OF m3]
  have 2: "\<exists>k<length dbs_example. dbs_ix ?r3 = Num k \<and> dbs_example ! k \<le> datenum ?r3"
    by blast
  have l2: "length dbs_example = 2" by (simp add: dbs_example_def)
  show ?thesis
    using s e 1 m4 l d l2 3 4 2 by (intro conjI)
qed

text \<open>
  C9 as the specification states it fails when two dbs rows share a timestamp: with dbs
  rows at 2 and 2 the LI-COR row at 2 equals the timestamp of the dbs row 0 and is tagged
  with 1.
\<close>

theorem tied_dbs_row_tagged_with_later_index:
  "sorted tied_dbs_example
   \<and> datenum \<lparr>datenum = 2, dbs_ix = NaN\<rparr> = tied_dbs_example ! 0
   \<and> get_licor_samples [\<lparr>datenum = 2, dbs_ix = NaN\<rparr>] tied_dbs_example
        = [\<lparr>datenum = 2, dbs_ix = Num 1\<rparr>]
   \<and> dbs_ix \<lparr>datenum = 2, dbs_ix = Num 1\<rparr> \<noteq> Num 0"
  unfolding tied_dbs_example_def by code_simp

section \<open>Properties of \<^verbatim>\<open>get_licor_resolution\<close>\<close>

subsection \<open>The distinct values of a sorted column\<close>

lemma unique_snoc:
  "unique (xs @ [x]) = (if x \<in> set xs then unique xs else unique xs @ [x])"
  by (simp add: unique_def)

lemma set_unique: "set (unique xs) = set xs"
  by (simp add: unique_def)

lemma distinct_unique: "distinct (unique xs)"
  by (simp add: unique_def)

lemma sorted_unique: "sorted xs \<Longrightarrow> sorted (unique xs)"
proof (induction xs rule: rev_induct)
  case Nil
  show ?case by (simp add: unique_def)
next
  case (snoc x xs)
  then have "sorted xs" and le: "\<forall>y\<in>set xs. y \<le> x" by (simp_all add: sorted_append)
  with snoc.IH have "sorted (unique xs)" by simp
  with le show ?case by (simp add: unique_snoc sorted_append set_unique)
qed

lemma ends_of_list:
  assumes "butlast (tl u) \<noteq> []"
  shows "u = hd u # butlast (tl u) @ [last u]"
proof -
  from assms obtain a t where u: "u = a # t" by (cases u) auto
  from assms u have t: "t \<noteq> []" by auto
  from t have "t = butlast t @ [last t]" by simp
  with u t show ?thesis by simp
qed

text \<open>The distinct values of a sorted column: the first, the interior ones, the last.\<close>

lemma sorted_ldu:
  assumes "sorted dn" and "ldu dn \<noteq> []"
  shows "\<exists>a z. set dn = insert a (insert z (set (ldu dn)))
           \<and> (\<forall>x\<in>set (ldu dn). a < x \<and> x < z \<and> hd (ldu dn) \<le> x \<and> x \<le> last (ldu dn))"
proof -
  let ?u = "unique dn"
  from assms(2) have u: "?u = hd ?u # ldu dn @ [last ?u]"
    unfolding ldu_def by (rule ends_of_list)
  from sorted_unique[OF assms(1)] distinct_unique[of dn] have "sorted_wrt (<) ?u"
    by (simp add: strict_sorted_iff)
  with u have s: "sorted_wrt (<) (hd ?u # ldu dn @ [last ?u])" by simp
  then have 1: "\<forall>x\<in>set (ldu dn). hd ?u < x \<and> x < last ?u"
    by (auto simp: sorted_wrt_append)
  from s have sl: "sorted (ldu dn)"
    by (auto simp: sorted_wrt_append intro: strict_sorted_imp_sorted)
  have 2: "\<forall>x\<in>set (ldu dn). hd (ldu dn) \<le> x \<and> x \<le> last (ldu dn)"
  proof
    fix x assume "x \<in> set (ldu dn)"
    then obtain p where p: "p < length (ldu dn)" "ldu dn ! p = x" by (auto simp: in_set_conv_nth)
    from sl p(1) have "ldu dn ! 0 \<le> ldu dn ! p" by (simp add: sorted_iff_nth_mono)
    moreover from sl p(1) have "ldu dn ! p \<le> ldu dn ! (length (ldu dn) - 1)"
      by (simp add: sorted_iff_nth_mono)
    ultimately show "hd (ldu dn) \<le> x \<and> x \<le> last (ldu dn)"
      using p assms(2) by (simp add: hd_conv_nth last_conv_nth)
  qed
  have "set dn = set ?u" by (simp add: set_unique)
  also have "\<dots> = set (hd ?u # ldu dn @ [last ?u])" using u by simp
  finally have 3: "set dn = insert (hd ?u) (insert (last ?u) (set (ldu dn)))" by auto
  from 1 2 3 show ?thesis by blast
qed

text \<open>The first position of a value in a sorted list splits it into smaller and not smaller.\<close>

lemma sorted_first_position:
  fixes xs :: "real list"
  assumes "sorted xs" and "m \<in> set xs"
  defines "s \<equiv> length (takeWhile (\<lambda>t. t \<noteq> m) xs)"
  shows "s < length xs \<and> xs ! s = m \<and> (\<forall>p<s. xs ! p < m) \<and> (\<forall>p. s \<le> p \<and> p < length xs \<longrightarrow> m \<le> xs ! p)"
proof -
  from assms(2) have ne: "takeWhile (\<lambda>t. t \<noteq> m) xs \<noteq> xs" by auto
  have "s \<noteq> length xs"
  proof
    assume "s = length xs"
    with takeWhile_eq_take[of "\<lambda>t. t \<noteq> m" xs] have "takeWhile (\<lambda>t. t \<noteq> m) xs = xs"
      by (simp add: s_def)
    with ne show False ..
  qed
  moreover have "s \<le> length xs" by (simp add: s_def length_takeWhile_le)
  ultimately have l: "s < length xs" by simp
  then have e: "xs ! s = m"
    unfolding s_def using nth_length_takeWhile[of "\<lambda>t. t \<noteq> m" xs] by simp
  have b: "\<forall>p<s. xs ! p < m"
  proof (intro allI impI)
    fix p assume p: "p < s"
    then have "takeWhile (\<lambda>t. t \<noteq> m) xs ! p \<in> set (takeWhile (\<lambda>t. t \<noteq> m) xs)"
      unfolding s_def by simp
    then have "takeWhile (\<lambda>t. t \<noteq> m) xs ! p \<noteq> m" by (auto dest: set_takeWhileD)
    with p have ne: "xs ! p \<noteq> m" unfolding s_def by (simp add: takeWhile_nth)
    from assms(1) p l have "xs ! p \<le> xs ! s" by (simp add: sorted_nth_mono)
    with e ne show "xs ! p < m" by simp
  qed
  have a: "\<forall>p. s \<le> p \<and> p < length xs \<longrightarrow> m \<le> xs ! p"
  proof (intro allI impI)
    fix p assume "s \<le> p \<and> p < length xs"
    with assms(1) have "xs ! s \<le> xs ! p" by (simp add: sorted_nth_mono)
    with e show "m \<le> xs ! p" by simp
  qed
  from l e b a show ?thesis by blast
qed

subsection \<open>The positions of the interior rows\<close>

lemma sorted_last_position:
  fixes xs :: "real list"
  assumes "sorted xs" and "M \<in> set xs"
  defines "w \<equiv> length (takeWhile (\<lambda>t. t \<noteq> M) (rev xs))"
  shows "w < length xs \<and> xs ! (length xs - Suc w) = M
     \<and> (\<forall>p. length xs - w \<le> p \<and> p < length xs \<longrightarrow> M < xs ! p)
     \<and> (\<forall>p<length xs - w. xs ! p \<le> M)"
proof -
  let ?P = "\<lambda>t. t \<noteq> M" and ?n = "length xs"
  from assms(2) have ne: "takeWhile ?P (rev xs) \<noteq> rev xs" by auto
  have "w \<noteq> ?n"
  proof
    assume "w = ?n"
    with takeWhile_eq_take[of ?P "rev xs"] have "takeWhile ?P (rev xs) = rev xs"
      by (simp add: w_def)
    with ne show False ..
  qed
  moreover have "w \<le> ?n" using length_takeWhile_le[of ?P "rev xs"] by (simp add: w_def)
  ultimately have l: "w < ?n" by simp
  then have "rev xs ! w = M"
    unfolding w_def using nth_length_takeWhile[of ?P "rev xs"] by simp
  with l have e: "xs ! (?n - Suc w) = M" by (simp add: rev_nth)
  have a: "\<forall>p. ?n - w \<le> p \<and> p < ?n \<longrightarrow> M < xs ! p"
  proof (intro allI impI)
    fix p assume p: "?n - w \<le> p \<and> p < ?n"
    let ?q = "?n - Suc p"
    from p l have q: "?q < w" by arith
    then have "takeWhile ?P (rev xs) ! ?q \<in> set (takeWhile ?P (rev xs))"
      unfolding w_def by simp
    then have "takeWhile ?P (rev xs) ! ?q \<noteq> M" by (auto dest: set_takeWhileD)
    with q have "rev xs ! ?q \<noteq> M" unfolding w_def by (simp add: takeWhile_nth)
    moreover have "rev xs ! ?q = xs ! p"
    proof -
      from p have "?q < ?n" by arith
      then have "rev xs ! ?q = xs ! (?n - Suc ?q)" by (rule rev_nth)
      moreover from p have "?n - Suc ?q = p" by arith
      ultimately show ?thesis by simp
    qed
    ultimately have n: "xs ! p \<noteq> M" by simp
    from p l have "?n - Suc w \<le> p" by arith
    with assms(1) p have "xs ! (?n - Suc w) \<le> xs ! p" by (simp add: sorted_nth_mono)
    with e n show "M < xs ! p" by simp
  qed
  have b: "\<forall>p<?n - w. xs ! p \<le> M"
  proof (intro allI impI)
    fix p assume p: "p < ?n - w"
    with l have "p \<le> ?n - Suc w" "?n - Suc w < ?n" by arith+
    with assms(1) have "xs ! p \<le> xs ! (?n - Suc w)" by (simp add: sorted_nth_mono)
    with e show "xs ! p \<le> M" by simp
  qed
  from l e a b show ?thesis by blast
qed

lemma length_filter_interval:
  assumes "s \<le> e" and "e \<le> length xs"
    and "\<forall>p<length xs. P (xs ! p) \<longleftrightarrow> s \<le> p \<and> p < e"
  shows "length (filter P xs) = e - s"
proof -
  have "{i. i < length xs \<and> P (xs ! i)} = {s..<e}"
    using assms by auto
  then show ?thesis by (simp add: length_filter_conv_card)
qed

text \<open>The interior rows of a sorted column are the rows from \<open>start_iloc\<close> to \<open>tail_iloc\<close>.\<close>

lemma sorted_interior_positions:
  assumes "sorted dn" and "ldu dn \<noteq> []"
  shows "\<exists>s e. first_where dn (ldu dn ! 0) = Inr s \<and> last_where dn (last (ldu dn)) = Inr (e - 1)
           \<and> 0 < s \<and> s < e \<and> e < length dn
           \<and> (\<forall>p<length dn. dn ! p \<in> set (ldu dn) \<longleftrightarrow> s \<le> p \<and> p < e)
           \<and> length (lda dn) = e - s"
proof -
  let ?m = "hd (ldu dn)" and ?M = "last (ldu dn)" and ?n = "length dn"
  from sorted_ldu[OF assms] obtain a z where
    set: "set dn = insert a (insert z (set (ldu dn)))"
    and b: "\<forall>x\<in>set (ldu dn). a < x \<and> x < z \<and> ?m \<le> x \<and> x \<le> ?M" by blast
  from assms(2) have mi: "?m \<in> set (ldu dn)" and Mi: "?M \<in> set (ldu dn)" by simp_all
  with set have md: "?m \<in> set dn" and Md: "?M \<in> set dn" by auto
  define s where "s = length (takeWhile (\<lambda>t. t \<noteq> ?m) dn)"
  define w where "w = length (takeWhile (\<lambda>t. t \<noteq> ?M) (rev dn))"
  define e where "e = ?n - w"
  from sorted_first_position[OF assms(1) md] have
    s: "s < ?n" "dn ! s = ?m" "\<forall>p<s. dn ! p < ?m" "\<forall>p. s \<le> p \<and> p < ?n \<longrightarrow> ?m \<le> dn ! p"
    unfolding s_def by blast+
  from sorted_last_position[OF assms(1) Md] have
    w: "w < ?n" "dn ! (?n - Suc w) = ?M" "\<forall>p. e \<le> p \<and> p < ?n \<longrightarrow> ?M < dn ! p"
       "\<forall>p<e. dn ! p \<le> ?M"
    unfolding w_def e_def by blast+
  have fw: "first_where dn (ldu dn ! 0) = Inr s"
    using md assms(2) by (simp add: first_where_def s_def hd_conv_nth)
  have lw: "last_where dn ?M = Inr (e - 1)"
    using Md w(1) by (simp add: last_where_def w_def e_def)
  have iff: "\<forall>p<?n. dn ! p \<in> set (ldu dn) \<longleftrightarrow> s \<le> p \<and> p < e"
  proof (intro allI impI iffI)
    fix p assume p: "p < ?n" and i: "dn ! p \<in> set (ldu dn)"
    from i b have r: "?m \<le> dn ! p" "dn ! p \<le> ?M" by auto
    have "\<not> p < s" using s(3) r(1) by fastforce
    moreover have "\<not> e \<le> p" using w(3) r(2) p by fastforce
    ultimately show "s \<le> p \<and> p < e" by simp
  next
    fix p assume p: "p < ?n" and i: "s \<le> p \<and> p < e"
    from i p s(4) have 1: "?m \<le> dn ! p" by simp
    from i w(4) have 2: "dn ! p \<le> ?M" by simp
    from b mi Mi have "a < ?m" "?M < z" by auto
    with 1 2 have "dn ! p \<noteq> a" "dn ! p \<noteq> z" by auto
    moreover from p have "dn ! p \<in> set dn" by simp
    ultimately show "dn ! p \<in> set (ldu dn)" using set by auto
  qed
  have se: "s < e"
  proof -
    from s(1,2) mi iff show ?thesis by auto
  qed
  have el: "e < ?n"
  proof (rule ccontr)
    assume "\<not> e < ?n"
    then have n: "\<forall>p<?n. dn ! p \<le> ?M" using w(4) by auto
    from set have "z \<in> set dn" by simp
    then obtain p where "p < ?n" "dn ! p = z" by (auto simp: in_set_conv_nth)
    with n have "z \<le> ?M" by auto
    with b Mi show False by auto
  qed
  have s0: "0 < s"
  proof (rule ccontr)
    assume "\<not> 0 < s"
    then have n: "\<forall>p<?n. ?m \<le> dn ! p" using s(4) by auto
    from set have "a \<in> set dn" by simp
    then obtain p where "p < ?n" "dn ! p = a" by (auto simp: in_set_conv_nth)
    with n have "?m \<le> a" by auto
    with b mi show False by auto
  qed
  have len: "length (lda dn) = e - s"
    unfolding lda_def using se el iff
    by (intro length_filter_interval) simp_all
  from fw lw s0 se el iff len show ?thesis by blast
qed

subsection \<open>The fractions of a second\<close>

lemma linspace_fractions:
  assumes "0 < r"
  shows "linspace 0 (1 - 1 / real r) r = map (\<lambda>k. real k / real r) [0..<r]"
proof (cases "r = 1")
  case True
  then show ?thesis by (simp add: linspace_def)
next
  case False
  with assms have r: "1 < r" by simp
  then have "real (r - 1) = real r - 1" by (simp add: of_nat_diff)
  moreover from r have "real r - 1 \<noteq> 0" "real r \<noteq> 0" by simp_all
  ultimately have "(1 - 1 / real r) / real (r - 1) = 1 / real r"
    by (simp add: field_simps)
  with False show ?thesis by (simp add: linspace_def)
qed

lemma nth_concat_replicate:
  "q < n * length xs \<Longrightarrow> concat (replicate n xs) ! q = xs ! (q mod length xs)"
proof (induction n arbitrary: q)
  case 0
  then show ?case by simp
next
  case (Suc n)
  show ?case
  proof (cases "q < length xs")
    case True
    then show ?thesis by (simp add: nth_append)
  next
    case False
    with Suc.prems have "q - length xs < n * length xs" by simp
    from Suc.IH[OF this] False show ?thesis
      by (simp add: nth_append le_mod_geq)
  qed
qed

lemma length_slice_from_end:
  "0 < n \<Longrightarrow> length (slice_from_end xs n) = min n (length xs)"
  by (simp add: slice_from_end_def)

lemma second_fractions_Inr:
  assumes "second_fractions dn = Inr fs"
    and "first_where dn (ldu dn ! 0) = Inr s" and "last_where dn (last (ldu dn)) = Inr l"
  shows "ldu dn \<noteq> [] \<and> 0 < resolution dn
     \<and> fs = slice_from_end (map (\<lambda>k. real k / real (resolution dn)) [0..<resolution dn]) s
            @ concat (replicate (length (ldu dn))
                       (map (\<lambda>k. real k / real (resolution dn)) [0..<resolution dn]))
            @ take (length dn - (l + 1)) (map (\<lambda>k. real k / real (resolution dn)) [0..<resolution dn])"
proof -
  from assms(1) have n: "ldu dn \<noteq> []" and r: "0 < resolution dn"
    by (auto simp: second_fractions_def split: if_splits)
  from n r assms show ?thesis
    by (simp add: second_fractions_def Let_def linspace_fractions)
qed

text \<open>
  When the concatenated fractions have the length of a sorted column, the head of the
  column is no longer than one second of samples and the quotient of the two counts is
  exact, so that the tiled fractions lie on the interior rows.
\<close>

lemma licor_resolution_structure:
  assumes "sorted dn" and "second_fractions dn = Inr fs" and "length fs = length dn"
  shows "ldu dn \<noteq> [] \<and> 0 < resolution dn
     \<and> length (lda dn) = resolution dn * length (ldu dn)
     \<and> (\<exists>s. first_where dn (ldu dn ! 0) = Inr s
           \<and> s + length (lda dn) < length dn
           \<and> (\<forall>p<length dn. dn ! p \<in> set (ldu dn) \<longleftrightarrow> s \<le> p \<and> p < s + length (lda dn))
           \<and> take (length (lda dn)) (drop s fs)
                = concat (replicate (length (ldu dn))
                            (map (\<lambda>k. real k / real (resolution dn)) [0..<resolution dn])))"
proof -
  let ?r = "resolution dn" and ?L = "length (ldu dn)" and ?A = "length (lda dn)"
  let ?fr = "map (\<lambda>k. real k / real ?r) [0..<?r]"
  from assms(2) have n: "ldu dn \<noteq> []"
    by (auto simp: second_fractions_def split: if_splits)
  from sorted_interior_positions[OF assms(1) n] obtain s e where
    fw: "first_where dn (ldu dn ! 0) = Inr s"
    and lw: "last_where dn (last (ldu dn)) = Inr (e - 1)"
    and o: "0 < s" "s < e" "e < length dn"
    and iff: "\<forall>p<length dn. dn ! p \<in> set (ldu dn) \<longleftrightarrow> s \<le> p \<and> p < e"
    and A: "?A = e - s" by blast
  from second_fractions_Inr[OF assms(2) fw lw] o have r: "0 < ?r"
    and fs: "fs = slice_from_end ?fr s @ concat (replicate ?L ?fr) @ take (length dn - e) ?fr"
    by simp_all
  have lm: "length (concat (replicate ?L ?fr)) = ?L * ?r"
    by (simp add: length_concat sum_list_replicate)
  have ls: "length (slice_from_end ?fr s) = min s ?r"
    using o(1) by (simp add: length_slice_from_end)
  have "?r * ?L \<le> ?A" unfolding resolution_def by simp
  moreover from fs assms(3) lm ls
  have "min s ?r + ?L * ?r + min (length dn - e) ?r = length dn" by simp
  ultimately have eq: "?A = ?r * ?L" and sr: "min s ?r = s"
    using A o by (auto simp: min_def mult.commute split: if_splits)
  from ls sr have ls': "length (slice_from_end ?fr s) = s" by simp
  from fs ls' have "drop s fs = concat (replicate ?L ?fr) @ take (length dn - e) ?fr"
    by simp
  with lm eq have tk: "take ?A (drop s fs) = concat (replicate ?L ?fr)"
    by (simp add: mult.commute)
  from A o have se: "s + ?A = e" by simp
  from n r eq fw se o iff tk show ?thesis by auto
qed

lemma distinct_ldu: "distinct (ldu dn)"
  unfolding ldu_def by (simp add: distinct_unique distinct_tl distinct_butlast)

text \<open>
  Claim C8: for a column in ascending order on which \<^verbatim>\<open>get_licor_resolution\<close> returns, the
  rate is the number of rows whose timestamp is an interior distinct value (first and last
  distinct value excluded) divided by the number of those values, the interior rows are
  the rows from \<open>start_iloc\<close> on, and the fractions added to them, in seconds, are
  \<open>0, 1/rate, ..., (rate-1)/rate\<close> repeated once per interior value: interior row number \<open>q\<close>
  gets \<open>(q mod rate) / rate\<close> seconds, as a fraction of a day.
\<close>

theorem licor_resolution_rate_and_offsets:
  assumes "sorted dn" and "get_licor_resolution dn = Inr out"
  shows "ldu dn \<noteq> [] \<and> distinct (ldu dn) \<and> 0 < resolution dn
     \<and> real (resolution dn) = real (length (lda dn)) / real (length (ldu dn))
     \<and> (\<exists>start_iloc fs.
           first_where dn (ldu dn ! 0) = Inr start_iloc
           \<and> second_fractions dn = Inr fs
           \<and> (\<forall>p<length dn. dn ! p \<in> set (ldu dn)
                  \<longleftrightarrow> start_iloc \<le> p \<and> p < start_iloc + length (lda dn))
           \<and> take (length (lda dn)) (drop start_iloc fs)
                = concat (replicate (length (ldu dn))
                     (map (\<lambda>k. real k / real (resolution dn)) [0..<resolution dn]))
           \<and> (\<forall>q<length (lda dn).
                 out ! (start_iloc + q)
                   = dn ! (start_iloc + q)
                     + (real (q mod resolution dn) / real (resolution dn))
                         / (60 * 60 * 24)))"
proof -
  let ?r = "resolution dn" and ?L = "length (ldu dn)" and ?A = "length (lda dn)"
  let ?fr = "map (\<lambda>k. real k / real ?r) [0..<?r]"
  from assms(2) obtain fs where fs: "second_fractions dn = Inr fs"
    and len: "length fs = length dn"
    and out: "out = map2 (\<lambda>t f. t + f / (60 * 60 * 24)) dn fs"
    by (auto simp: get_licor_resolution_def split: sum.splits if_splits)
  from licor_resolution_structure[OF assms(1) fs len] obtain s where
    n: "ldu dn \<noteq> []" and r: "0 < ?r" and eq: "?A = ?r * ?L"
    and fw: "first_where dn (ldu dn ! 0) = Inr s"
    and b: "s + ?A < length dn"
    and iff: "\<forall>p<length dn. dn ! p \<in> set (ldu dn) \<longleftrightarrow> s \<le> p \<and> p < s + ?A"
    and tk: "take ?A (drop s fs) = concat (replicate ?L ?fr)"
    by blast
  from n have "real ?L \<noteq> 0" by simp
  with eq have rate: "real ?r = real ?A / real ?L" by simp
  have pt: "\<forall>q<?A. out ! (s + q)
              = dn ! (s + q) + (real (q mod ?r) / real ?r) / (60 * 60 * 24)"
  proof (intro allI impI)
    fix q assume q: "q < ?A"
    with b len have i: "s + q < length dn" "s + q < length fs" by simp_all
    from q eq have ql: "q < ?L * length ?fr" by (simp add: mult.commute)
    from r have "q mod ?r < ?r" by simp
    have "fs ! (s + q) = drop s fs ! q" using i by simp
    also have "\<dots> = take ?A (drop s fs) ! q" using q by simp
    also have "\<dots> = ?fr ! (q mod length ?fr)"
      unfolding tk using nth_concat_replicate[OF ql] .
    also have "\<dots> = real (q mod ?r) / real ?r" using \<open>q mod ?r < ?r\<close> by simp
    finally have "fs ! (s + q) = real (q mod ?r) / real ?r" .
    with i show "out ! (s + q)
              = dn ! (s + q) + (real (q mod ?r) / real ?r) / (60 * 60 * 24)"
      unfolding out by simp
  qed
  from n distinct_ldu[of dn] r rate fw fs iff tk pt show ?thesis by blast
qed

text \<open>
  The theorem of C8 on a column with one row at 0, five rows at 1, five rows at 2 and one row
  at 3: the rate is 5, and the ten interior rows get \<open>0, 1/5, 2/5, 3/5, 4/5\<close> twice.
\<close>

theorem licor_resolution_rate_and_offsets_witness:
  "sorted licor_datenum_example
   \<and> get_licor_resolution licor_datenum_example = Inr licor_corrected_example
   \<and> ldu licor_datenum_example = [1, 2] \<and> length (lda licor_datenum_example) = 10
   \<and> resolution licor_datenum_example = 5
   \<and> real (resolution licor_datenum_example)
        = real (length (lda licor_datenum_example)) / real (length (ldu licor_datenum_example))
   \<and> second_fractions licor_datenum_example = Inr licor_fractions_example
   \<and> take 10 (drop 1 licor_fractions_example)
        = [0, 1 / 5, 2 / 5, 3 / 5, 4 / 5, 0, 1 / 5, 2 / 5, 3 / 5, 4 / 5]
   \<and> (\<exists>start_iloc fs.
           first_where licor_datenum_example (ldu licor_datenum_example ! 0) = Inr start_iloc
           \<and> second_fractions licor_datenum_example = Inr fs
           \<and> (\<forall>p<length licor_datenum_example.
                  licor_datenum_example ! p \<in> set (ldu licor_datenum_example)
                  \<longleftrightarrow> start_iloc \<le> p \<and> p < start_iloc + length (lda licor_datenum_example))
           \<and> take (length (lda licor_datenum_example)) (drop start_iloc fs)
                = concat (replicate (length (ldu licor_datenum_example))
                     (map (\<lambda>k. real k / real (resolution licor_datenum_example))
                        [0..<resolution licor_datenum_example]))
           \<and> (\<forall>q<length (lda licor_datenum_example).
                 licor_corrected_example ! (start_iloc + q)
                   = licor_datenum_example ! (start_iloc + q)
                     + (real (q mod resolution licor_datenum_example)
                          / real (resolution licor_datenum_example)) / (60 * 60 * 24)))"
proof -
  have s: "sorted licor_datenum_example"
    unfolding licor_datenum_example_def by simp
  have g: "get_licor_resolution licor_datenum_example = Inr licor_corrected_example"
    unfolding licor_corrected_example_def licor_fractions_example_def licor_datenum_example_def
    by code_simp
  have e: "ldu licor_datenum_example = [1, 2]" "length (lda licor_datenum_example) = 10"
    "resolution licor_datenum_example = 5"
    "second_fractions licor_datenum_example = Inr licor_fractions_example"
    "take 10 (drop 1 licor_fractions_example)
        = [0, 1 / 5, 2 / 5, 3 / 5, 4 / 5, 0, 1 / 5, 2 / 5, 3 / 5, 4 / 5]"
    unfolding licor_fractions_example_def licor_datenum_example_def
    by code_simp+
  note T = licor_resolution_rate_and_offsets[OF s g]
  note 1 = T[THEN conjunct2, THEN conjunct2, THEN conjunct2, THEN conjunct1]
  note 2 = T[THEN conjunct2, THEN conjunct2, THEN conjunct2, THEN conjunct2]
  show ?thesis
    using s g e 1 2 by (intro conjI)
qed

end
